theory Spec2Isabelle
  imports Main "HOL-Library.Word" "HOL-Library.Multiset"
begin

section \<open>VobSub2SRT: the conversion loop and the SRT writer of \<open>vobsub2srt.c++\<close>\<close>

text \<open>
  The C++ type \<open>unsigned\<close> is a 32-bit word and \<open>int\<close> is the same word read in
  two's complement (\<open>sint\<close>, \<open>\<le>s\<close>, \<open><s\<close>); \<open>UINT_MAX\<close> is the word \<open>- 1\<close>.
  Strings are \<open>char list\<close>; a \<open>char const *\<close> that may be \<open>NULL\<close> is a
  \<open>string option\<close>.

  The decoder (\<open>vobsub\<close>, \<open>spudec\<close>) and the engine (\<open>tesseract\<close>) are not part of the
  program: the stream is a list of packets, each with the frame the decoder reports for
  it, and the engine is a function of the surroundings. In \<open>main\<close> the threads of the pool
  are not modelled as threads: a started recognition runs to its end before \<open>main\<close> goes
  on. Which thread appends first to \<open>conv_subs\<close> is therefore fixed there; the sorted
  collection does not depend on it as long as the counters differ (\<open>std_sort_order\<close>
  below). The pool with threads that end when the surroundings let them is
  \<open>pool_events\<close>.
\<close>

type_synonym u32 = "32 word"
type_synonym byte = "8 word"

definition UINT_MAX :: u32 where
  "UINT_MAX = - 1"

subsection \<open>\<open>snprintf\<close> with the conversions the program uses\<close>

definition digit_char :: "nat \<Rightarrow> char" where
  "digit_char d = ''0123456789'' ! d"

fun dec_digits :: "nat \<Rightarrow> string" where
  "dec_digits n = (if n < 10 then [digit_char n]
                   else dec_digits (n div 10) @ [digit_char (n mod 10)])"

declare dec_digits.simps [simp del]

definition zero_pad :: "nat \<Rightarrow> string \<Rightarrow> string" where
  "zero_pad w s = replicate (w - length s) (CHR ''0'') @ s"

text \<open>\<open>%0wd\<close>: a signed decimal, padded with zeros to the width \<open>w\<close>, the sign counted
  in the width.\<close>

definition printf_0d :: "nat \<Rightarrow> int \<Rightarrow> string" where
  "printf_0d w i =
     (if i < 0 then CHR ''-'' # zero_pad (w - 1) (dec_digits (nat (- i)))
      else zero_pad w (dec_digits (nat i)))"

text \<open>\<open>%u\<close>: an unsigned decimal.\<close>

definition printf_u :: "u32 \<Rightarrow> string" where
  "printf_u x = dec_digits (unat x)"

text \<open>\<open>snprintf (buf, n, ...)\<close> keeps at most \<open>n - 1\<close> characters.\<close>

definition snprintf :: "nat \<Rightarrow> string \<Rightarrow> string" where
  "snprintf n s = take (n - 1) s"

subsection \<open>\<open>pts2srt\<close>\<close>

text \<open>The four fields \<open>h\<close>, \<open>m\<close>, \<open>s\<close>, \<open>ms\<close> as the function computes them, in
  \<open>unsigned\<close> arithmetic.\<close>

definition pts2srt_fields :: "u32 \<Rightarrow> u32 \<times> u32 \<times> u32 \<times> u32" where
  "pts2srt_fields pts =
     (let ms = pts div 90;
          h = ms div (3600 * 1000);
          ms = ms - h * 3600 * 1000;
          m = ms div (60 * 1000);
          ms = ms - m * 60 * 1000;
          s = ms div 1000;
          ms = ms mod 1000
      in (h, m, s, ms))"

text \<open>\<open>enum { length = 4 * sizeof(h) }\<close> with a 4-byte \<open>unsigned\<close>.\<close>

definition buf_length :: nat where
  "buf_length = 4 * 4"

text \<open>The format is \<open>"%02d:%02d:%02d,%03d"\<close>; \<open>%d\<close> reads each \<open>unsigned\<close> argument
  as an \<open>int\<close>.\<close>

definition pts2srt :: "u32 \<Rightarrow> string" where
  "pts2srt pts =
     (case pts2srt_fields pts of (h, m, s, ms) \<Rightarrow>
        snprintf buf_length
          (printf_0d 2 (sint h) @ '':'' @ printf_0d 2 (sint m) @ '':'' @
           printf_0d 2 (sint s) @ '','' @ printf_0d 3 (sint ms)))"

text \<open>Reading a decimal numeral back, to state what a rendered field denotes.\<close>

definition digit_value :: "char \<Rightarrow> nat" where
  "digit_value c = of_char c - 48"

definition dec_value :: "string \<Rightarrow> nat" where
  "dec_value s = foldl (\<lambda>acc c. 10 * acc + digit_value c) 0 s"

definition is_digit :: "char \<Rightarrow> bool" where
  "is_digit c = (c \<in> set ''0123456789'')"

subsection \<open>The records of the program\<close>

text \<open>\<open>struct sub_text_t\<close>; the field \<open>text\<close> is \<open>sub_text\<close> here, \<open>None\<close> for a
  null pointer.\<close>

record sub_text_t =
  counter :: u32
  start_pts :: u32
  end_pts :: u32
  sub_text :: "string option"

text \<open>\<open>struct ocr_thread_t\<close>: the thread handle \<open>t\<close> (\<open>None\<close> for \<open>NULL\<close>, otherwise
  the counter of the frame the thread was started for), the flag \<open>done\<close> and the engine
  handle.\<close>

record ocr_thread_t =
  ocr_t :: "u32 option"
  ocr_done :: bool
  tess_base_api :: nat

text \<open>One packet of the stream: the \<open>timestamp\<close> that \<open>vobsub_get_next_packet\<close>
  reports (an \<open>int\<close>) and what \<open>spudec_get_data\<close> reports once the packet is assembled;
  \<open>image_size\<close> is the length of \<open>img\<close>.\<close>

record packet =
  timestamp :: u32
  img :: "byte list"
  width :: u32
  height :: u32
  stride :: u32
  spu_start_pts :: u32
  spu_end_pts :: u32

text \<open>The command line options the loop reads (\<open>int\<close> options as words).\<close>

record options =
  dump_images :: bool
  verb :: bool
  dumb :: bool
  min_width :: u32
  min_height :: u32
  max_threads :: u32

text \<open>What the program asks of its surroundings: whether \<open>fopen\<close> of the \<open>.srt\<close> file
  succeeds, \<open>thread::hardware_concurrency ()\<close>, \<open>init_tesseract\<close> (its result for the
  call made when \<open>n\<close> engines exist already: a handle, or \<open>None\<close> for \<open>NULL\<close>), and
  \<open>TessBaseAPI::TesseractRect\<close> (engine, image, stride, width, height).\<close>

record environment =
  fopen_ok :: bool
  hardware_concurrency :: u32
  init_tesseract :: "nat \<Rightarrow> nat option"
  TesseractRect :: "nat \<Rightarrow> byte list \<Rightarrow> u32 \<Rightarrow> u32 \<Rightarrow> u32 \<Rightarrow> string option"

text \<open>The lines the program writes to \<open>cerr\<close> and \<open>cout\<close>, by the values they print.\<close>

datatype diagnostic =
  Image_too_small u32 nat u32 u32 u32 u32
| Timestamp_mismatch u32 u32 u32
| OCR_failed u32
| Text_line u32 string

text \<open>The variables of \<open>main\<close> that the loop changes, with the two output streams and
  the calls of \<open>dump_pgm\<close> (counter, width, height, stride, image).\<close>

record main_state =
  threads :: "ocr_thread_t list"
  last_start_pts :: u32
  sub_counter :: u32
  conv_subs :: "sub_text_t list"
  cerr :: "diagnostic list"
  cout :: "diagnostic list"
  dumped :: "(u32 \<times> u32 \<times> u32 \<times> u32 \<times> byte list) list"

definition initial_state :: main_state where
  "initial_state =
     \<lparr>threads = [], last_start_pts = 0, sub_counter = 1, conv_subs = [],
      cerr = [], cout = [], dumped = []\<rparr>"

subsection \<open>\<open>ImageInverter\<close> and \<open>do_ocr\<close>\<close>

definition ImageInverter :: "byte list \<Rightarrow> byte list" where
  "ImageInverter im =
     map (\<lambda>b. if 255 - int (unat b) > 0x80 then 0xff else 0) im"

definition isspace :: "char \<Rightarrow> bool" where
  "isspace c = (c = CHR '' '' \<or> (9 \<le> (of_char c :: nat) \<and> (of_char c :: nat) \<le> 13))"

text \<open>The loop \<open>while (size > 0 and isspace(text[--size])) text[size] = '\0'\<close>.\<close>

function strip_trailing :: "string \<Rightarrow> string" where
  "strip_trailing s =
     (if 0 < length s \<and> isspace (s ! (length s - 1))
      then strip_trailing (take (length s - 1) s) else s)"
  by pat_completeness auto
termination
  by (relation "measure length") auto

declare strip_trailing.simps [simp del]

text \<open>\<open>do_ocr\<close> for the slot \<open>i\<close> of the pool. The recognition runs to its end before the
  caller goes on: for \<open>max_threads = 1\<close> that is the program; for a started thread it
  fixes one of the orders in which the threads may append to \<open>conv_subs\<close>.\<close>

definition do_ocr ::
  "environment \<Rightarrow> nat \<Rightarrow> u32 \<Rightarrow> u32 \<Rightarrow> u32 \<Rightarrow> u32 \<Rightarrow> byte list \<Rightarrow> u32 \<Rightarrow> u32 \<Rightarrow>
   bool \<Rightarrow> main_state \<Rightarrow> main_state" where
  "do_ocr env i cnt w h strd image_cpy start_p end_p vb st =
     (let text0 = TesseractRect env (tess_base_api (threads st ! i)) image_cpy strd w h;
          st1 = (case text0 of
                   None \<Rightarrow> st\<lparr>cerr := cerr st @ [OCR_failed cnt]\<rparr>
                 | Some tx \<Rightarrow>
                     if vb then st\<lparr>cout := cout st @ [Text_line cnt (strip_trailing tx)]\<rparr>
                     else st);
          text1 = map_option strip_trailing text0;
          st2 = st1\<lparr>conv_subs := conv_subs st1 @
                  [\<lparr>counter = cnt, start_pts = start_p, end_pts = end_p, sub_text = text1\<rparr>]\<rparr>
      in st2\<lparr>threads := (threads st2)[i := (threads st2 ! i)\<lparr>ocr_done := True\<rparr>]\<rparr>)"

subsection \<open>The conversion loop of \<open>main\<close>\<close>

text \<open>\<open>if (max_threads <= 0) max_threads = thread::hardware_concurrency ()\<close>.\<close>

definition pool_size :: "options \<Rightarrow> environment \<Rightarrow> u32" where
  "pool_size opts env =
     (if max_threads opts \<le>s 0 then hardware_concurrency env else max_threads opts)"

text \<open>One scan \<open>for (i = 0; i < threads.size (); i++) if (threads[i]->done) ...\<close>: the
  first slot whose flag is set.\<close>

fun scan_done :: "ocr_thread_t list \<Rightarrow> nat \<Rightarrow> nat option" where
  "scan_done [] i = None"
| "scan_done (x # xs) i = (if ocr_done x then Some i else scan_done xs (Suc i))"

text \<open>The loop \<open>while (ocr_thread == NULL) { scan; if (ocr_thread == NULL) usleep (50); }\<close>.
  It returns the slot a scan finds; \<open>None\<close> is the loop that never ends. Every started
  recognition has run to its end, so a scan that finds no flag set will find none later.\<close>

partial_function (option) poll_done :: "ocr_thread_t list \<Rightarrow> nat option" where
  "poll_done ths = (case scan_done ths 0 of Some i \<Rightarrow> Some i | None \<Rightarrow> poll_done ths)"

declare poll_done.simps [code]

text \<open>How one passage through the loop body ends: with the next packet, or with a
  \<open>return\<close> from \<open>main\<close>.\<close>

datatype flow = Next main_state | Return u32 main_state

text \<open>The choice of the slot (\<open>ocr_thread\<close>): a new one while the pool is smaller than
  \<open>max_threads\<close>, the only one when \<open>max_threads == 1\<close>, a finished one otherwise, joined
  and its thread deleted. \<open>None\<close>: the polling never ends. \<open>Some (Inl st)\<close>:
  \<open>init_tesseract\<close> returned \<open>NULL\<close>.\<close>

definition acquire_slot ::
  "options \<Rightarrow> environment \<Rightarrow> main_state \<Rightarrow> (main_state + nat \<times> main_state) option" where
  "acquire_slot opts env st =
     (if length (threads st) < unat (pool_size opts env) then
        (case init_tesseract env (length (threads st)) of
           None \<Rightarrow> Some (Inl st)
         | Some api \<Rightarrow>
             Some (Inr (length (threads st),
               st\<lparr>threads := threads st @
                 [\<lparr>ocr_t = None, ocr_done = False, tess_base_api = api\<rparr>]\<rparr>)))
      else if pool_size opts env = 1 then Some (Inr (0, st))
      else
        (case poll_done (threads st) of
           None \<Rightarrow> None
         | Some i \<Rightarrow> Some (Inr (i, st\<lparr>threads := (threads st)[i := (threads st ! i)\<lparr>ocr_t := None\<rparr>]\<rparr>))))"

text \<open>The recognition of one accepted frame on the slot \<open>i\<close>: inline when
  \<open>max_threads == 1\<close>, in a new thread otherwise; then \<open>++sub_counter\<close>.\<close>

definition start_ocr ::
  "options \<Rightarrow> environment \<Rightarrow> nat \<Rightarrow> packet \<Rightarrow> byte list \<Rightarrow> main_state \<Rightarrow> main_state" where
  "start_ocr opts env i p image_cpy st =
     (let st1 =
        (if pool_size opts env = 1 then
           do_ocr env i (sub_counter st) (width p) (height p) (stride p) image_cpy
             (spu_start_pts p) (spu_end_pts p) (verb opts) st
         else
           do_ocr env i (sub_counter st) (width p) (height p) (stride p) image_cpy
             (spu_start_pts p) (spu_end_pts p) (verb opts)
             (st\<lparr>threads := (threads st)[i := (threads st ! i)
                   \<lparr>ocr_done := False, ocr_t := Some (sub_counter st)\<rparr>]\<rparr>))
      in st1\<lparr>sub_counter := sub_counter st1 + 1\<rparr>)"

text \<open>What the body does with an accepted frame before it looks for a slot: the
  warning about the time stamps, the inversion of the image (\<open>ImageInverter\<close>, applied
  to \<open>img p\<close> where the image is used) and \<open>dump_pgm\<close>.\<close>

definition preprocess :: "options \<Rightarrow> packet \<Rightarrow> main_state \<Rightarrow> main_state" where
  "preprocess opts p st =
     (let st2 = (if verb opts \<and> timestamp p \<noteq> spu_start_pts p
                 then st\<lparr>cerr := cerr st @
                   [Timestamp_mismatch (sub_counter st) (timestamp p) (spu_start_pts p)]\<rparr>
                 else st)
      in if dump_images opts
         then st2\<lparr>dumped := dumped st2 @
           [(sub_counter st2, width p, height p, stride p, ImageInverter (img p))]\<rparr>
         else st2)"

text \<open>The body of \<open>while ((len = vobsub_get_next_packet (...)) > 0)\<close> for one packet.\<close>

definition process_packet ::
  "options \<Rightarrow> environment \<Rightarrow> main_state \<Rightarrow> packet \<Rightarrow> flow option" where
  "process_packet opts env st p =
     (if 0 \<le>s timestamp p then
        if spu_start_pts p = last_start_pts st then Some (Next st)
        else
          let st1 = st\<lparr>last_start_pts := spu_start_pts p\<rparr> in
          if width p < min_width opts \<or> height p < min_height opts then
            Some (Next (st1\<lparr>cerr := cerr st1 @
              [Image_too_small (sub_counter st1) (length (img p)) (width p) (height p)
                 (min_width opts) (min_height opts)]\<rparr>))
          else
            (case acquire_slot opts env (preprocess opts p st1) of
               None \<Rightarrow> None
             | Some (Inl st2) \<Rightarrow> Some (Return (- 1) st2)
             | Some (Inr (i, st2)) \<Rightarrow>
                 Some (Next (start_ocr opts env i p (ImageInverter (img p)) st2)))
      else Some (Next st))"

fun read_loop ::
  "options \<Rightarrow> environment \<Rightarrow> main_state \<Rightarrow> packet list \<Rightarrow> flow option" where
  "read_loop opts env st [] = Some (Next st)"
| "read_loop opts env st (p # ps) =
     (case process_packet opts env st p of
        None \<Rightarrow> None
      | Some (Return c st1) \<Rightarrow> Some (Return c st1)
      | Some (Next st1) \<Rightarrow> read_loop opts env st1 ps)"

subsection \<open>Sorting and writing the results\<close>

text \<open>The comparison \<open>sort_fct\<close>.\<close>

definition sort_fct :: "sub_text_t \<Rightarrow> sub_text_t \<Rightarrow> bool" where
  "sort_fct a b = (counter a < counter b)"

text \<open>What the C++ standard promises of \<open>std::sort (first, last, comp)\<close>: the range
  holds the same elements, and no element is \<open>comp\<close>-smaller than one before it.\<close>

definition std_sort_result :: "('a \<Rightarrow> 'a \<Rightarrow> bool) \<Rightarrow> 'a list \<Rightarrow> 'a list \<Rightarrow> bool" where
  "std_sort_result cmp xs ys = (mset ys = mset xs \<and> sorted_wrt (\<lambda>a b. \<not> cmp b a) ys)"

text \<open>\<open>std::sort\<close> itself is the library's; a sort by insertion stands for it.\<close>

fun insert_comp :: "('a \<Rightarrow> 'a \<Rightarrow> bool) \<Rightarrow> 'a \<Rightarrow> 'a list \<Rightarrow> 'a list" where
  "insert_comp cmp x [] = [x]"
| "insert_comp cmp x (y # ys) =
     (if cmp x y then x # y # ys else y # insert_comp cmp x ys)"

fun std_sort :: "('a \<Rightarrow> 'a \<Rightarrow> bool) \<Rightarrow> 'a list \<Rightarrow> 'a list" where
  "std_sort cmp [] = []"
| "std_sort cmp (x # xs) = insert_comp cmp x (std_sort cmp xs)"

text \<open>\<open>%s\<close> with a \<open>char const *\<close>: the C library prints a null pointer as \<open>(null)\<close>.\<close>

definition printf_s :: "string option \<Rightarrow> string" where
  "printf_s tx = (case tx of None \<Rightarrow> ''(null)'' | Some s \<Rightarrow> s)"

text \<open>\<open>fprintf (srtout, "%u\n%s --> %s\n%s\n\n", ...)\<close> for one result.\<close>

definition srt_record :: "sub_text_t \<Rightarrow> string" where
  "srt_record r =
     printf_u (counter r) @ [CHR 0x0A] @ pts2srt (start_pts r) @ '' --> '' @
     pts2srt (end_pts r) @ [CHR 0x0A] @ printf_s (sub_text r) @ [CHR 0x0A, CHR 0x0A]"

text \<open>The statement
  \<open>if (conv_subs[i].end_pts == UINT_MAX || (dumb && i + 1 < conv_subs.size ()))
     conv_subs[i].end_pts = conv_subs[i + 1].start_pts;\<close>
  \<open>operator[]\<close> of a vector is defined for an index below \<open>size ()\<close> only: a read at
  another index is \<open>Inl\<close> of that index.\<close>

definition fix_end_pts :: "bool \<Rightarrow> sub_text_t list \<Rightarrow> nat \<Rightarrow> nat + sub_text_t list" where
  "fix_end_pts dmb subs i =
     (if end_pts (subs ! i) = UINT_MAX \<or> (dmb \<and> i + 1 < length subs) then
        (if i + 1 < length subs
         then Inr (subs[i := (subs ! i)\<lparr>end_pts := start_pts (subs ! (i + 1))\<rparr>])
         else Inl (i + 1))
      else Inr subs)"

text \<open>The loop \<open>for (unsigned i = 0; i < conv_subs.size (); ++i)\<close> from \<open>i\<close> on, for a
  collection of fewer than \<open>2 ^ 32\<close> results: the index read out of range if there is
  one, the collection as the loop leaves it, and the records written.\<close>

function write_loop ::
  "bool \<Rightarrow> sub_text_t list \<Rightarrow> nat \<Rightarrow> string list \<Rightarrow> nat option \<times> sub_text_t list \<times> string list"
  where
  "write_loop dmb subs i out =
     (if i < length subs then
        (case fix_end_pts dmb subs i of
           Inl j \<Rightarrow> (Some j, subs, out)
         | Inr subs1 \<Rightarrow>
             write_loop dmb (subs1[i := (subs1 ! i)\<lparr>sub_text := None\<rparr>]) (i + 1)
               (out @ [srt_record (subs1 ! i)]))
      else (None, subs, out))"
  by pat_completeness auto
termination
  by (relation "measure (\<lambda>(dmb, subs, i, out). length subs - i)")
    (auto simp: fix_end_pts_def split: if_splits)

declare write_loop.simps [simp del]

subsection \<open>\<open>main\<close>, from the opening of the \<open>.srt\<close> file on\<close>

text \<open>How \<open>main\<close> ends: with a returned value, or at a read outside the collection.\<close>

datatype exit_status = Returned u32 | Read_out_of_range nat

text \<open>A run: how it ends, what was written to the \<open>.srt\<close> file (\<open>None\<close>: the file was
  not opened), and the state of the loop's variables.\<close>

record run =
  exit_status :: exit_status
  srtout :: "string list option"
  final_state :: main_state

text \<open>\<open>None\<close>: \<open>main\<close> does not return.\<close>

definition main :: "options \<Rightarrow> environment \<Rightarrow> packet list \<Rightarrow> run option" where
  "main opts env packets =
     (if \<not> fopen_ok env then
        Some \<lparr>exit_status = Returned 1, srtout = None, final_state = initial_state\<rparr>
      else
        (case read_loop opts env initial_state packets of
           None \<Rightarrow> None
         | Some (Return c st) \<Rightarrow>
             Some \<lparr>exit_status = Returned c, srtout = Some [], final_state = st\<rparr>
         | Some (Next st) \<Rightarrow>
             (case write_loop (dumb opts) (std_sort sort_fct (conv_subs st)) 0 [] of
                (None, subs, out) \<Rightarrow>
                  Some \<lparr>exit_status = Returned 0, srtout = Some out,
                        final_state = st\<lparr>conv_subs := subs\<rparr>\<rparr>
              | (Some j, subs, out) \<Rightarrow>
                  Some \<lparr>exit_status = Read_out_of_range j, srtout = Some out,
                        final_state = st\<lparr>conv_subs := subs\<rparr>\<rparr>)))"

subsection \<open>The pool with threads that finish on their own\<close>

text \<open>Lines 390 to 428 once more, for the threads as threads. A thread that was started
  and has not yet stored its flag \<open>done\<close> is a job: the slot it runs on and the
  arguments of its \<open>do_ocr\<close> (the counter and the frame).\<close>

datatype job = Job (job_slot: nat) (job_counter: u32) (job_packet: packet)

text \<open>What can happen to the pool: \<open>main\<close> takes an accepted frame through lines 390 to
  428, or the thread of a slot comes to the end of its \<open>do_ocr\<close>. When that happens is
  for the surroundings to say.\<close>

datatype event = Dispatch packet | Finish nat

text \<open>\<open>ocr_thread->done = false; ocr_thread->t = new thread (do_ocr, ...); ++sub_counter\<close>,
  without the body of the thread.\<close>

definition spawn_ocr :: "nat \<Rightarrow> main_state \<Rightarrow> main_state" where
  "spawn_ocr i st =
     st\<lparr>threads := (threads st)[i := (threads st ! i)
            \<lparr>ocr_done := False, ocr_t := Some (sub_counter st)\<rparr>],
        sub_counter := sub_counter st + 1\<rparr>"

text \<open>\<open>main\<close> with an accepted frame: the slot is chosen as before; with
  \<open>max_threads == 1\<close> the recognition is done inline, otherwise a thread is started and
  becomes a job. \<open>None\<close>: \<open>main\<close> does not get past the choice of the slot in this
  configuration (no flag is set, so it stays in the polling loop until a thread
  finishes), or it returns because no engine could be created.\<close>

definition dispatch ::
  "options \<Rightarrow> environment \<Rightarrow> packet \<Rightarrow> main_state \<times> job list \<Rightarrow> (main_state \<times> job list) option"
  where
  "dispatch opts env p cfg =
     (case cfg of (st, live) \<Rightarrow>
        (case acquire_slot opts env st of
           Some (Inr (i, st1)) \<Rightarrow>
             if pool_size opts env = 1
             then Some (start_ocr opts env i p (ImageInverter (img p)) st1, live)
             else Some (spawn_ocr i st1, live @ [Job i (sub_counter st1) p])
         | Some (Inl st1) \<Rightarrow> None
         | None \<Rightarrow> None))"

text \<open>The thread of the slot \<open>i\<close> ends: the body of \<open>do_ocr\<close> with the arguments the
  thread was started with. \<open>None\<close>: there is no such thread.\<close>

definition finish ::
  "options \<Rightarrow> environment \<Rightarrow> nat \<Rightarrow> main_state \<times> job list \<Rightarrow> (main_state \<times> job list) option"
  where
  "finish opts env i cfg =
     (case cfg of (st, live) \<Rightarrow>
        (case find (\<lambda>j. job_slot j = i) live of
           None \<Rightarrow> None
         | Some j \<Rightarrow>
             Some (do_ocr env i (job_counter j) (width (job_packet j)) (height (job_packet j))
                     (stride (job_packet j)) (ImageInverter (img (job_packet j)))
                     (spu_start_pts (job_packet j)) (spu_end_pts (job_packet j)) (verb opts) st,
                   remove1 j live)))"

fun pool_step ::
  "options \<Rightarrow> environment \<Rightarrow> main_state \<times> job list \<Rightarrow> event \<Rightarrow> (main_state \<times> job list) option"
  where
  "pool_step opts env cfg (Dispatch p) = dispatch opts env p cfg"
| "pool_step opts env cfg (Finish i) = finish opts env i cfg"

text \<open>A schedule: the events in the order in which they happen. \<open>None\<close>: the events
  cannot happen in this order.\<close>

fun pool_events ::
  "options \<Rightarrow> environment \<Rightarrow> main_state \<times> job list \<Rightarrow> event list \<Rightarrow>
   (main_state \<times> job list) option" where
  "pool_events opts env cfg [] = Some cfg"
| "pool_events opts env cfg (e # es) =
     (case pool_step opts env cfg e of
        None \<Rightarrow> None
      | Some cfg1 \<Rightarrow> pool_events opts env cfg1 es)"

subsection \<open>Notions for stating the properties\<close>

text \<open>The result at the index \<open>k\<close>, which has a successor, as the writing loop leaves
  its time stamps: the end is the start of the successor when the end is the sentinel or
  \<open>dumb\<close> is set.\<close>

definition repaired :: "bool \<Rightarrow> sub_text_t list \<Rightarrow> nat \<Rightarrow> sub_text_t" where
  "repaired dmb subs k =
     (if end_pts (subs ! k) = UINT_MAX \<or> dmb
      then (subs ! k)\<lparr>end_pts := start_pts (subs ! (k + 1))\<rparr> else subs ! k)"

text \<open>The results collected so far carry the counters 1, 2, ... in this order, and
  \<open>sub_counter\<close> is the next one.\<close>

definition counters_in_order :: "main_state \<Rightarrow> bool" where
  "counters_in_order st =
     (sub_counter st = 1 + of_nat (length (conv_subs st)) \<and>
      map counter (conv_subs st) = map (\<lambda>k. 1 + of_nat k) [0 ..< length (conv_subs st)])"

text \<open>What holds of the pool and its jobs in every configuration.\<close>

definition pool_inv :: "options \<Rightarrow> environment \<Rightarrow> main_state \<times> job list \<Rightarrow> bool" where
  "pool_inv opts env cfg =
     (case cfg of (st, live) \<Rightarrow>
        length (threads st) \<le> unat (pool_size opts env) \<and>
        distinct (map job_slot live) \<and>
        list_all (\<lambda>j. job_slot j < length (threads st) \<and>
                       \<not> ocr_done (threads st ! job_slot j)) live \<and>
        (pool_size opts env = 1 \<longrightarrow>
           live = [] \<and> list_all (\<lambda>x. ocr_t x = None) (threads st)))"

subsection \<open>Sample data\<close>

text \<open>The default gate (\<open>min_width = 9\<close>, \<open>min_height = 1\<close>) with one thread, and with
  two.\<close>

definition sample_options :: options where
  "sample_options =
     \<lparr>dump_images = False, verb = False, dumb = False,
      min_width = 9, min_height = 1, max_threads = 1\<rparr>"

definition sample_options2 :: options where
  "sample_options2 = sample_options\<lparr>max_threads := 2\<rparr>"

text \<open>Surroundings in which every engine is created and recognises \<open>Hi\<close>, followed by a
  line break, in every image but the all black ones, where the recognition fails.\<close>

definition sample_environment :: environment where
  "sample_environment =
     \<lparr>fopen_ok = True, hardware_concurrency = 4,
      init_tesseract = (\<lambda>n. Some n),
      TesseractRect = (\<lambda>api im s w h.
        if list_all (\<lambda>b. b = 0) im then None else Some (''Hi'' @ [CHR 0x0A]))\<rparr>"

text \<open>Surroundings in which no engine can be created.\<close>

definition no_engine_environment :: environment where
  "no_engine_environment = sample_environment\<lparr>init_tesseract := (\<lambda>n. None)\<rparr>"

text \<open>Surroundings in which one engine can be created and no second one.\<close>

definition one_engine_environment :: environment where
  "one_engine_environment =
     sample_environment\<lparr>init_tesseract := (\<lambda>n. if n = 0 then Some 0 else None)\<rparr>"

text \<open>A frame of 10 by 1 pixels that starts at \<open>start\<close> and whose end is unknown.\<close>

definition sample_frame :: "u32 \<Rightarrow> packet" where
  "sample_frame start =
     \<lparr>timestamp = start, img = replicate 10 0, width = 10, height = 1, stride = 10,
      spu_start_pts = start, spu_end_pts = UINT_MAX\<rparr>"

text \<open>A frame of 2 by 1 pixels, and a frame of 10 by 1 pixels that is black once
  inverted.\<close>

definition small_frame :: "u32 \<Rightarrow> packet" where
  "small_frame start = (sample_frame start)\<lparr>img := replicate 2 0, width := 2, stride := 2\<rparr>"

definition blank_frame :: "u32 \<Rightarrow> packet" where
  "blank_frame start = (sample_frame start)\<lparr>img := replicate 10 0xff\<rparr>"

definition sample_result :: "u32 \<Rightarrow> u32 \<Rightarrow> u32 \<Rightarrow> sub_text_t" where
  "sample_result c a b = \<lparr>counter = c, start_pts = a, end_pts = b, sub_text = Some ''Hi''\<rparr>"

text \<open>The state after the first sample frame, started at 9000, with one thread.\<close>

definition sample_state :: main_state where
  "sample_state =
     \<lparr>threads = [\<lparr>ocr_t = None, ocr_done = True, tess_base_api = 0\<rparr>],
      last_start_pts = 9000, sub_counter = 2,
      conv_subs = [sample_result 1 9000 UINT_MAX], cerr = [], cout = [], dumped = []\<rparr>"

section \<open>The time stamp of the SRT format\<close>

lemma word_sub_div_mult: "(x :: u32) - c * (x div c) = x mod c"
proof -
  have "x div c * c + x mod c = x" by (rule div_mult_mod_eq)
  then have "x mod c = x - x div c * c" by (simp add: algebra_simps)
  then show ?thesis by (simp add: mult.commute)
qed

lemma pts2srt_fields_eq:
  "pts2srt_fields pts =
     (pts div 90 div 3600000,
      pts div 90 mod 3600000 div 60000,
      pts div 90 mod 3600000 mod 60000 div 1000,
      pts div 90 mod 3600000 mod 60000 mod 1000)"
  by (simp add: pts2srt_fields_def Let_def word_sub_div_mult)

lemma pts2srt_fields_unat:
  assumes "pts2srt_fields pts = (h, m, s, ms)"
  shows "unat h = unat pts div 90 div 3600000"
    and "unat m = unat pts div 90 mod 3600000 div 60000"
    and "unat s = unat pts div 90 mod 3600000 mod 60000 div 1000"
    and "unat ms = unat pts div 90 mod 3600000 mod 60000 mod 1000"
proof -
  from assms have "h = pts div 90 div 3600000"
    and "m = pts div 90 mod 3600000 div 60000"
    and "s = pts div 90 mod 3600000 mod 60000 div 1000"
    and "ms = pts div 90 mod 3600000 mod 60000 mod 1000"
    by (simp_all add: pts2srt_fields_eq)
  then show "unat h = unat pts div 90 div 3600000"
    and "unat m = unat pts div 90 mod 3600000 div 60000"
    and "unat s = unat pts div 90 mod 3600000 mod 60000 div 1000"
    and "unat ms = unat pts div 90 mod 3600000 mod 60000 mod 1000"
    by (simp_all add: unat_div unat_mod)
qed

lemma fields_sum:
  fixes T :: nat
  shows "T div 3600000 * 3600000 + T mod 3600000 div 60000 * 60000
     + T mod 3600000 mod 60000 div 1000 * 1000 + T mod 3600000 mod 60000 mod 1000 = T"
proof -
  have e1: "T mod 3600000 mod 60000 div 1000 * 1000 + T mod 3600000 mod 60000 mod 1000
            = T mod 3600000 mod 60000"
    by (rule div_mult_mod_eq)
  have e2: "T mod 3600000 div 60000 * 60000 + T mod 3600000 mod 60000 = T mod 3600000"
    by (rule div_mult_mod_eq)
  have e3: "T div 3600000 * 3600000 + T mod 3600000 = T"
    by (rule div_mult_mod_eq)
  show ?thesis
    by (simp only: add.assoc e1 e2 e3)
qed

lemma fields_bounds:
  fixes T :: nat
  shows "T mod 3600000 div 60000 < 60" "T mod 3600000 mod 60000 div 1000 < 60" "T mod 3600000 mod 60000 mod 1000 < 1000"
proof -
  have "T mod 3600000 < 60 * 60000" by simp
  then show "T mod 3600000 div 60000 < 60" by (rule less_mult_imp_div_less)
  have "T mod 3600000 mod 60000 < 60 * 1000" by simp
  then show "T mod 3600000 mod 60000 div 1000 < 60" by (rule less_mult_imp_div_less)
  show "T mod 3600000 mod 60000 mod 1000 < 1000" by simp
qed

lemma hours_bound: "unat (pts :: u32) div 90 div 3600000 < 14"
proof -
  have "unat pts < 2 ^ 32" using unsigned_less [of pts] by simp
  then have "unat pts < 14 * (90 * 3600000)" by simp
  then show ?thesis by (simp add: div_mult2_eq [symmetric] less_mult_imp_div_less)
qed

lemma digit_value_digit_char: "d < 10 \<Longrightarrow> digit_value (digit_char d) = d"
proof -
  assume "d < 10"
  then have "d \<in> {0,1,2,3,4,5,6,7,8,9}" by auto
  then show ?thesis
    by (auto simp: digit_value_def digit_char_def)
qed

lemma is_digit_digit_char: "d < 10 \<Longrightarrow> is_digit (digit_char d)"
proof -
  assume "d < 10"
  then have "d \<in> {0,1,2,3,4,5,6,7,8,9}" by auto
  then show ?thesis
    by (auto simp: is_digit_def digit_char_def)
qed

lemma dec_value_snoc: "dec_value (s @ [c]) = 10 * dec_value s + digit_value c"
  by (simp add: dec_value_def)

lemma dec_value_dec_digits: "dec_value (dec_digits n) = n"
proof (induction n rule: dec_digits.induct)
  case (1 n)
  show ?case
  proof (cases "n < 10")
    case True
    then show ?thesis
      by (subst dec_digits.simps) (simp add: dec_value_def digit_value_digit_char)
  next
    case False
    with 1 have "dec_value (dec_digits (n div 10)) = n div 10" by simp
    with False show ?thesis
      by (subst dec_digits.simps) (simp add: dec_value_snoc digit_value_digit_char)
  qed
qed

lemma is_digit_dec_digits: "list_all is_digit (dec_digits n)"
proof (induction n rule: dec_digits.induct)
  case (1 n)
  show ?case
  proof (cases "n < 10")
    case True
    then show ?thesis
      by (subst dec_digits.simps) (simp add: is_digit_digit_char)
  next
    case False
    with 1 have "list_all is_digit (dec_digits (n div 10))" by simp
    with False show ?thesis
      by (subst dec_digits.simps) (simp add: is_digit_digit_char)
  qed
qed

lemma length_dec_digits_pos: "0 < length (dec_digits n)"
  by (subst dec_digits.simps) simp

lemma length_dec_digits_le: "n < 10 ^ k \<Longrightarrow> 0 < k \<Longrightarrow> length (dec_digits n) \<le> k"
proof (induction n arbitrary: k rule: dec_digits.induct)
  case (1 n)
  show ?case
  proof (cases "n < 10")
    case True
    with 1 show ?thesis by (subst dec_digits.simps) simp
  next
    case False
    from 1(3) obtain j where k: "k = Suc j" by (cases k) auto
    with False 1(2) have "0 < j" by (cases j) auto
    from 1(2) k have "n div 10 < 10 ^ j"
      by (simp add: less_mult_imp_div_less mult.commute)
    with 1(1) False \<open>0 < j\<close> have "length (dec_digits (n div 10)) \<le> j" by simp
    with False k show ?thesis by (subst dec_digits.simps) simp
  qed
qed

lemma length_zero_pad: "length (zero_pad w s) = max w (length s)"
  by (simp add: zero_pad_def)

lemma dec_value_replicate_zero: "dec_value (replicate k (CHR ''0'') @ s) = dec_value s"
proof -
  have "foldl (\<lambda>acc c. 10 * acc + digit_value c) 0 (replicate k (CHR ''0'')) = 0"
    by (induction k) (simp_all add: digit_value_def)
  then show ?thesis by (simp add: dec_value_def)
qed

lemma dec_value_zero_pad: "dec_value (zero_pad w s) = dec_value s"
  by (simp add: zero_pad_def dec_value_replicate_zero)

lemma is_digit_zero_pad: "list_all is_digit s \<Longrightarrow> list_all is_digit (zero_pad w s)"
proof -
  have "is_digit (CHR ''0'')" by (simp add: is_digit_def)
  then have "list_all is_digit (replicate k (CHR ''0''))" for k
    by (induction k) simp_all
  then show "list_all is_digit s \<Longrightarrow> list_all is_digit (zero_pad w s)"
    by (simp add: zero_pad_def)
qed

lemma printf_0d_nat: "printf_0d w (int n) = zero_pad w (dec_digits n)"
  by (simp add: printf_0d_def)

lemma length_printf_0d: "length (printf_0d w (int n)) = max w (length (dec_digits n))"
  by (simp add: printf_0d_nat length_zero_pad)

lemma length_printf_0d_fit:
  "n < 10 ^ w \<Longrightarrow> 0 < w \<Longrightarrow> length (printf_0d w (int n)) = w"
  using length_dec_digits_le [of n w] by (simp add: length_printf_0d)

lemma sint_small: "unat (x :: u32) < 2 ^ 31 \<Longrightarrow> sint x = int (unat x)"
proof -
  assume a: "unat x < 2 ^ 31"
  have "int (unat x) < int (2 ^ 31)" using a by (simp only: of_nat_less_iff)
  then have "uint x < 2 ^ 31" by simp
  moreover have "- (2 ^ 31) \<le> uint x"
    by (rule order_trans [of _ 0]) simp_all
  ultimately have "signed_take_bit 31 (uint x) = uint x"
    by (rule signed_take_bit_int_eq_self [rotated])
  then show ?thesis by (simp add: sint_uint)
qed

section \<open>Sorting by the counter\<close>

lemma mset_insert_cmp: "mset (insert_comp cmp x xs) = add_mset x (mset xs)"
  by (induction xs) simp_all

lemma mset_std_sort: "mset (std_sort cmp xs) = mset xs"
  by (induction xs) (simp_all add: mset_insert_cmp)

lemma set_insert_cmp: "set (insert_comp cmp x xs) = insert x (set xs)"
  by (induction xs) auto

lemma set_std_sort: "set (std_sort cmp xs) = set xs"
  using mset_std_sort [of cmp xs] by (metis set_mset_mset)

lemma length_std_sort: "length (std_sort cmp xs) = length xs"
  using mset_std_sort [of cmp xs] by (metis size_mset)

lemma sorted_insert_key:
  fixes f :: "'a \<Rightarrow> 'k :: linorder"
  assumes "sorted_wrt (\<lambda>a b. \<not> f b < f a) xs"
  shows "sorted_wrt (\<lambda>a b. \<not> f b < f a) (insert_comp (\<lambda>a b. f a < f b) x xs)"
  using assms
proof (induction xs)
  case Nil
  then show ?case by simp
next
  case (Cons y ys)
  then show ?case
    by (auto simp: set_insert_cmp)
qed

lemma sorted_std_sort_key:
  fixes f :: "'a \<Rightarrow> 'k :: linorder"
  shows "sorted_wrt (\<lambda>a b. \<not> f b < f a) (std_sort (\<lambda>a b. f a < f b) xs)"
  by (induction xs) (simp_all add: sorted_insert_key)

lemma sort_fct_eq: "sort_fct = (\<lambda>a b. counter a < counter b)"
  by (simp add: sort_fct_def fun_eq_iff)

lemma std_sort_conforms: "std_sort_result sort_fct xs (std_sort sort_fct xs)"
  unfolding std_sort_result_def sort_fct_eq
  by (simp add: mset_std_sort sorted_std_sort_key)

lemma sorted_result_strict:
  assumes d: "distinct (map counter xs)" and r: "std_sort_result sort_fct xs ys"
  shows "sorted_wrt (\<lambda>a b. counter a < counter b) ys" and "distinct (map counter ys)"
proof -
  from r have m: "mset ys = mset xs"
    and s: "sorted_wrt (\<lambda>a b. \<not> counter b < counter a) ys"
    by (simp_all add: std_sort_result_def sort_fct_def)
  from m have "mset (map counter ys) = mset (map counter xs)" by simp
  with d show dy: "distinct (map counter ys)"
    by (metis mset_eq_imp_distinct_iff)
  show "sorted_wrt (\<lambda>a b. counter a < counter b) ys"
    unfolding sorted_wrt_iff_nth_less
  proof (intro allI impI)
    fix i j assume ij: "i < j" "j < length ys"
    with s have "\<not> counter (ys ! j) < counter (ys ! i)"
      by (simp add: sorted_wrt_iff_nth_less)
    moreover have "counter (ys ! i) \<noteq> counter (ys ! j)"
      using dy ij nth_eq_iff_index_eq [of "map counter ys" i j] by simp
    ultimately show "counter (ys ! i) < counter (ys ! j)" by simp
  qed
qed

lemma sorted_result_unique:
  assumes d: "distinct (map counter xs)"
    and r1: "std_sort_result sort_fct xs ys" and r2: "std_sort_result sort_fct xs zs"
  shows "ys = zs"
proof -
  have sy: "sorted_wrt (<) (map counter ys)" and sz: "sorted_wrt (<) (map counter zs)"
    using sorted_result_strict(1) [OF d r1] sorted_result_strict(1) [OF d r2]
    by (simp_all add: sorted_wrt_map)
  from r1 r2 have m: "mset ys = mset xs" "mset zs = mset xs"
    by (simp_all add: std_sort_result_def)
  then have se: "set ys = set xs" "set zs = set xs"
    by (metis mset_eq_setD)+
  then have "set (map counter ys) = set (map counter zs)" by simp
  with sy sz have e: "map counter ys = map counter zs"
    by (simp add: strict_sorted_equal)
  from d have "inj_on counter (set xs)" by (simp add: distinct_map)
  with se have "inj_on counter (set ys \<union> set zs)" by simp
  with e show ?thesis by (rule map_inj_on)
qed

lemma std_sort_order:
  assumes "distinct (map counter xs)" and "mset xs' = mset xs"
  shows "std_sort sort_fct xs' = std_sort sort_fct xs"
proof -
  have "std_sort_result sort_fct xs (std_sort sort_fct xs')"
    using std_sort_conforms [of xs'] assms(2) by (simp add: std_sort_result_def)
  from sorted_result_unique [OF assms(1) this std_sort_conforms] show ?thesis .
qed

section \<open>The writing loop\<close>

lemma fix_end_pts_inner:
  "i + 1 < length subs \<Longrightarrow> fix_end_pts dmb subs i = Inr (subs[i := repaired dmb subs i])"
  by (simp add: fix_end_pts_def repaired_def)

lemma fix_end_pts_last:
  "i + 1 = length subs \<Longrightarrow>
   fix_end_pts dmb subs i = (if end_pts (subs ! i) = UINT_MAX then Inl (length subs) else Inr subs)"
  by (auto simp: fix_end_pts_def)

lemma write_loop_done: "length subs \<le> i \<Longrightarrow> write_loop dmb subs i out = (None, subs, out)"
  by (subst write_loop.simps) simp

lemma write_loop_inner:
  "i + 1 < length subs \<Longrightarrow>
   write_loop dmb subs i out =
     write_loop dmb (subs[i := (repaired dmb subs i)\<lparr>sub_text := None\<rparr>]) (i + 1)
       (out @ [srt_record (repaired dmb subs i)])"
  by (subst write_loop.simps) (simp add: fix_end_pts_inner)

lemma write_loop_last:
  "i + 1 = length subs \<Longrightarrow>
   write_loop dmb subs i out =
     (if end_pts (subs ! i) = UINT_MAX then (Some (length subs), subs, out)
      else (None, subs[i := (subs ! i)\<lparr>sub_text := None\<rparr>], out @ [srt_record (subs ! i)]))"
  by (subst write_loop.simps) (auto simp: fix_end_pts_last write_loop_done)

lemma repaired_update:
  "i < k \<Longrightarrow> repaired dmb (subs[i := x]) k = repaired dmb subs k"
  by (simp add: repaired_def)

lemma write_loop_fault:
  "fst (write_loop dmb subs i out) =
     (if i < length subs \<and> end_pts (last subs) = UINT_MAX then Some (length subs) else None)"
proof (induction dmb subs i out rule: write_loop.induct)
  case (1 dmb subs i out)
  consider "length subs \<le> i" | "i + 1 = length subs" | "i + 1 < length subs" by linarith
  then show ?case
  proof cases
    case 1
    then show ?thesis by (simp add: write_loop_done)
  next
    case 2
    then have "last subs = subs ! i"
      by (cases subs rule: rev_cases) (auto simp: nth_append)
    with 2 show ?thesis by (simp add: write_loop_last)
  next
    case 3
    let ?subs' = "subs[i := (repaired dmb subs i)\<lparr>sub_text := None\<rparr>]"
    from 3 have "subs \<noteq> []" by auto
    with 3 have l: "last ?subs' = last subs"
      by (simp add: last_list_update)
    from 3 have "fst (write_loop dmb ?subs' (i + 1) (out @ [srt_record (repaired dmb subs i)]))
       = (if i + 1 < length ?subs' \<and> end_pts (last ?subs') = UINT_MAX
          then Some (length ?subs') else None)"
      using "1.IH" [of "subs[i := repaired dmb subs i]"]
      by (simp add: fix_end_pts_inner)
    with 3 l show ?thesis by (simp add: write_loop_inner)
  qed
qed

lemma write_loop_out:
  "snd (snd (write_loop dmb subs i out)) =
     out @ map (\<lambda>k. srt_record (repaired dmb subs k)) [i ..< length subs - 1] @
     (if i < length subs \<and> end_pts (last subs) \<noteq> UINT_MAX then [srt_record (last subs)] else [])"
proof (induction dmb subs i out rule: write_loop.induct)
  case (1 dmb subs i out)
  consider "length subs \<le> i" | "i + 1 = length subs" | "i + 1 < length subs" by linarith
  then show ?case
  proof cases
    case 1
    then show ?thesis by (simp add: write_loop_done)
  next
    case 2
    then have "last subs = subs ! i"
      by (cases subs rule: rev_cases) (auto simp: nth_append)
    with 2 show ?thesis by (auto simp: write_loop_last)
  next
    case 3
    let ?subs' = "subs[i := (repaired dmb subs i)\<lparr>sub_text := None\<rparr>]"
    let ?out' = "out @ [srt_record (repaired dmb subs i)]"
    from 3 have "subs \<noteq> []" by auto
    with 3 have l: "last ?subs' = last subs"
      by (simp add: last_list_update)
    have m: "map (\<lambda>k. srt_record (repaired dmb ?subs' k)) [i + 1 ..< length subs - 1]
           = map (\<lambda>k. srt_record (repaired dmb subs k)) [i + 1 ..< length subs - 1]"
      by (rule map_cong) (simp_all add: repaired_update)
    from 3 have u: "[i ..< length subs - 1] = i # [i + 1 ..< length subs - 1]"
      by (simp add: upt_conv_Cons)
    from 3 have "snd (snd (write_loop dmb ?subs' (i + 1) ?out')) =
       ?out' @ map (\<lambda>k. srt_record (repaired dmb ?subs' k)) [i + 1 ..< length ?subs' - 1] @
       (if i + 1 < length ?subs' \<and> end_pts (last ?subs') \<noteq> UINT_MAX
        then [srt_record (last ?subs')] else [])"
      using "1.IH" [of "subs[i := repaired dmb subs i]"]
      by (simp add: fix_end_pts_inner)
    with 3 l m u show ?thesis by (simp add: write_loop_inner)
  qed
qed

lemma write_loop_complete:
  assumes "fst (write_loop dmb subs 0 []) = None" and "k < length subs"
  shows "\<exists>e. snd (snd (write_loop dmb subs 0 [])) ! k = srt_record ((subs ! k)\<lparr>end_pts := e\<rparr>)"
    and "length (snd (snd (write_loop dmb subs 0 []))) = length subs"
proof -
  from assms(2) have ne: "subs \<noteq> []" and pos: "0 < length subs" by auto
  from assms(1) pos have nf: "end_pts (last subs) \<noteq> UINT_MAX"
    by (simp add: write_loop_fault split: if_splits)
  let ?m = "map (\<lambda>k. srt_record (repaired dmb subs k)) [0 ..< length subs - 1]"
  from nf ne have out: "snd (snd (write_loop dmb subs 0 [])) = ?m @ [srt_record (last subs)]"
    by (simp add: write_loop_out)
  from pos show "length (snd (snd (write_loop dmb subs 0 []))) = length subs"
    by (simp add: out)
  show "\<exists>e. snd (snd (write_loop dmb subs 0 [])) ! k = srt_record ((subs ! k)\<lparr>end_pts := e\<rparr>)"
  proof (cases "k < length subs - 1")
    case True
    then have "(?m @ [srt_record (last subs)]) ! k = srt_record (repaired dmb subs k)"
      by (simp add: nth_append)
    moreover have "repaired dmb subs k = (subs ! k)\<lparr>end_pts := end_pts (repaired dmb subs k)\<rparr>"
      by (simp add: repaired_def)
    ultimately show ?thesis unfolding out by metis
  next
    case False
    with assms(2) have k: "k = length subs - 1" by simp
    with ne have "last subs = subs ! k" by (simp add: last_conv_nth)
    with k have "(?m @ [srt_record (last subs)]) ! k = srt_record ((subs ! k)\<lparr>end_pts := end_pts (subs ! k)\<rparr>)"
      by (simp add: nth_append)
    then show ?thesis unfolding out by blast
  qed
qed

lemma srt_record_null:
  "srt_record \<lparr>counter = c, start_pts = a, end_pts = e, sub_text = None\<rparr> =
     printf_u c @ [CHR 0x0A] @ pts2srt a @ '' --> '' @ pts2srt e @ [CHR 0x0A] @
     ''(null)'' @ [CHR 0x0A, CHR 0x0A]"
  by (simp add: srt_record_def printf_s_def)

section \<open>The conversion loop\<close>

lemma poll_done_SomeD:
  assumes "poll_done ths = Some i"
  shows "scan_done ths 0 = Some i"
  by (rule poll_done.raw_induct [rotated, OF assms]) (auto split: option.splits)

lemma poll_done_eq: "poll_done ths = scan_done ths 0"
proof (cases "scan_done ths 0")
  case None
  then show ?thesis using poll_done_SomeD [of ths] by (cases "poll_done ths") auto
next
  case (Some i)
  then show ?thesis by (subst poll_done.simps) simp
qed

lemma scan_done_bound: "scan_done ths k = Some i \<Longrightarrow> k \<le> i \<and> i < k + length ths"
  by (induction ths arbitrary: k) (fastforce split: if_splits)+

lemma preprocess_same [simp]:
  "threads (preprocess opts p st) = threads st"
  "last_start_pts (preprocess opts p st) = last_start_pts st"
  "sub_counter (preprocess opts p st) = sub_counter st"
  "conv_subs (preprocess opts p st) = conv_subs st"
  "cout (preprocess opts p st) = cout st"
  by (simp_all add: preprocess_def Let_def)

lemma acquire_slot_Inr:
  assumes "acquire_slot opts env st = Some (Inr (i, st'))"
  shows "last_start_pts st' = last_start_pts st" "sub_counter st' = sub_counter st"
    "conv_subs st' = conv_subs st" "cerr st' = cerr st" "cout st' = cout st"
    "dumped st' = dumped st" "i < length (threads st')"
  using assms scan_done_bound [of "threads st" 0 i]
  by (auto simp: acquire_slot_def poll_done_eq split: if_splits option.splits)

lemma acquire_slot_Inl:
  "acquire_slot opts env st = Some (Inl st') \<longleftrightarrow>
   st' = st \<and> length (threads st) < unat (pool_size opts env) \<and>
   init_tesseract env (length (threads st)) = None"
  by (auto simp: acquire_slot_def split: if_splits option.splits)

lemma acquire_slot_pool:
  assumes "acquire_slot opts env st = Some (Inr (i, st'))"
    and "length (threads st) \<le> unat (pool_size opts env)"
  shows "length (threads st') \<le> unat (pool_size opts env)"
  using assms
  by (auto simp: acquire_slot_def split: if_splits option.splits)

lemma do_ocr_same [simp]:
  "last_start_pts (do_ocr env i c w h s im a b v st) = last_start_pts st"
  "sub_counter (do_ocr env i c w h s im a b v st) = sub_counter st"
  "dumped (do_ocr env i c w h s im a b v st) = dumped st"
  "length (threads (do_ocr env i c w h s im a b v st)) = length (threads st)"
  by (simp_all add: do_ocr_def Let_def split: option.split)

lemma do_ocr_conv_subs:
  "conv_subs (do_ocr env i c w h s im a b v st) =
     conv_subs st @ [\<lparr>counter = c, start_pts = a, end_pts = b,
       sub_text = map_option strip_trailing (TesseractRect env (tess_base_api (threads st ! i)) im s w h)\<rparr>]"
  by (simp add: do_ocr_def Let_def split: option.split)

lemma do_ocr_failed:
  "TesseractRect env (tess_base_api (threads st ! i)) im s w h = None \<Longrightarrow>
   cerr (do_ocr env i c w h s im a b v st) = cerr st @ [OCR_failed c] \<and>
   cout (do_ocr env i c w h s im a b v st) = cout st"
  by (simp add: do_ocr_def Let_def)

lemma api_update:
  "tess_base_api (ths[i := (ths ! i)\<lparr>ocr_done := d, ocr_t := t\<rparr>] ! i) = tess_base_api (ths ! i)"
  by (cases "i < length ths") (simp_all add: list_update_beyond)

lemma start_ocr_same [simp]:
  "last_start_pts (start_ocr opts env i p im st) = last_start_pts st"
  "sub_counter (start_ocr opts env i p im st) = sub_counter st + 1"
  "dumped (start_ocr opts env i p im st) = dumped st"
  "length (threads (start_ocr opts env i p im st)) = length (threads st)"
  by (simp_all add: start_ocr_def Let_def)

lemma start_ocr_conv_subs:
  "conv_subs (start_ocr opts env i p im st) =
     conv_subs st @ [\<lparr>counter = sub_counter st, start_pts = spu_start_pts p,
       end_pts = spu_end_pts p,
       sub_text = map_option strip_trailing
         (TesseractRect env (tess_base_api (threads st ! i)) im (stride p) (width p) (height p))\<rparr>]"
  by (simp add: start_ocr_def Let_def do_ocr_conv_subs api_update)

lemma start_ocr_failed:
  "TesseractRect env (tess_base_api (threads st ! i)) im (stride p) (width p) (height p) = None \<Longrightarrow>
   cerr (start_ocr opts env i p im st) = cerr st @ [OCR_failed (sub_counter st)] \<and>
   cout (start_ocr opts env i p im st) = cout st"
  by (simp add: start_ocr_def Let_def do_ocr_failed api_update)

lemma below_minimum:
  fixes w m :: u32
  assumes "uint w < sint m"
  shows "w < m"
proof -
  have "0 \<le> uint w" by simp
  with assms have "0 \<le> sint m" by linarith
  moreover have "sint m < 2 ^ 32"
    using sint_lt [of m] by simp
  ultimately have "take_bit 32 (sint m) = sint m"
    by (rule take_bit_int_eq_self)
  then have "uint m = sint m"
    using uint_sint [of m] by simp
  with assms show ?thesis by (simp add: word_less_def)
qed

text \<open>The three ways of a packet through the body.\<close>

lemma process_packet_skip:
  "\<not> 0 \<le>s timestamp p \<or> spu_start_pts p = last_start_pts st \<Longrightarrow>
   process_packet opts env st p = Some (Next st)"
  by (auto simp: process_packet_def)

lemma process_packet_small:
  "0 \<le>s timestamp p \<Longrightarrow> spu_start_pts p \<noteq> last_start_pts st \<Longrightarrow>
   width p < min_width opts \<or> height p < min_height opts \<Longrightarrow>
   process_packet opts env st p =
     Some (Next (st\<lparr>last_start_pts := spu_start_pts p,
       cerr := cerr st @ [Image_too_small (sub_counter st) (length (img p)) (width p)
         (height p) (min_width opts) (min_height opts)]\<rparr>))"
  by (auto simp: process_packet_def Let_def)

lemma process_packet_accepted:
  "0 \<le>s timestamp p \<Longrightarrow> spu_start_pts p \<noteq> last_start_pts st \<Longrightarrow>
   \<not> (width p < min_width opts \<or> height p < min_height opts) \<Longrightarrow>
   process_packet opts env st p =
     (case acquire_slot opts env (preprocess opts p (st\<lparr>last_start_pts := spu_start_pts p\<rparr>)) of
        None \<Rightarrow> None
      | Some (Inl st2) \<Rightarrow> Some (Return (- 1) st2)
      | Some (Inr (i, st2)) \<Rightarrow> Some (Next (start_ocr opts env i p (ImageInverter (img p)) st2)))"
  by (simp add: process_packet_def Let_def)

lemma process_packet_Next_last:
  assumes "0 \<le>s timestamp p" and "process_packet opts env st p = Some (Next st')"
  shows "last_start_pts st' = spu_start_pts p"
proof -
  consider "spu_start_pts p = last_start_pts st"
    | "spu_start_pts p \<noteq> last_start_pts st" "width p < min_width opts \<or> height p < min_height opts"
    | "spu_start_pts p \<noteq> last_start_pts st" "\<not> (width p < min_width opts \<or> height p < min_height opts)"
    by blast
  then show ?thesis
  proof cases
    case 1
    with assms show ?thesis by (simp add: process_packet_skip)
  next
    case 2
    with assms show ?thesis by (auto simp: process_packet_small)
  next
    case 3
    with assms show ?thesis
      by (auto simp: process_packet_accepted acquire_slot_Inr(1)
          split: option.splits sum.splits)
  qed
qed

lemma process_packet_Next_conv_subs:
  assumes "process_packet opts env st p = Some (Next st')"
  shows "conv_subs st' = conv_subs st \<and> sub_counter st' = sub_counter st \<or>
         (\<exists>tx. conv_subs st' = conv_subs st @
            [\<lparr>counter = sub_counter st, start_pts = spu_start_pts p,
              end_pts = spu_end_pts p, sub_text = tx\<rparr>] \<and>
          sub_counter st' = sub_counter st + 1)"
proof -
  consider "\<not> 0 \<le>s timestamp p \<or> spu_start_pts p = last_start_pts st"
    | "0 \<le>s timestamp p" "spu_start_pts p \<noteq> last_start_pts st"
      "width p < min_width opts \<or> height p < min_height opts"
    | "0 \<le>s timestamp p" "spu_start_pts p \<noteq> last_start_pts st"
      "\<not> (width p < min_width opts \<or> height p < min_height opts)"
    by blast
  then show ?thesis
  proof cases
    case 1
    with assms show ?thesis by (simp add: process_packet_skip)
  next
    case 2
    with assms show ?thesis by (auto simp: process_packet_small)
  next
    case 3
    with assms obtain i st2 where
      a: "acquire_slot opts env (preprocess opts p (st\<lparr>last_start_pts := spu_start_pts p\<rparr>))
            = Some (Inr (i, st2))"
      and s: "st' = start_ocr opts env i p (ImageInverter (img p)) st2"
      by (auto simp: process_packet_accepted split: option.splits sum.splits)
    from acquire_slot_Inr(2,3) [OF a] s show ?thesis
      by (simp add: start_ocr_conv_subs)
  qed
qed

lemma process_packet_accepted_Next:
  assumes "0 \<le>s timestamp p" "spu_start_pts p \<noteq> last_start_pts st"
    "\<not> width p < min_width opts" "\<not> height p < min_height opts"
    and "process_packet opts env st p = Some (Next st')"
  shows "length (conv_subs st') = length (conv_subs st) + 1"
proof -
  from assms obtain i st2 where
    a: "acquire_slot opts env (preprocess opts p (st\<lparr>last_start_pts := spu_start_pts p\<rparr>))
          = Some (Inr (i, st2))"
    and s: "st' = start_ocr opts env i p (ImageInverter (img p)) st2"
    by (auto simp: process_packet_accepted split: option.splits sum.splits)
  from acquire_slot_Inr(3) [OF a] s show ?thesis
    by (simp add: start_ocr_conv_subs)
qed

lemma process_packet_Return:
  "process_packet opts env st p = Some (Return c st') \<Longrightarrow> c = - 1"
  by (auto simp: process_packet_def Let_def split: if_splits option.splits sum.splits)

lemma read_loop_append:
  "read_loop opts env st (ps @ qs) =
     (case read_loop opts env st ps of
        Some (Next st') \<Rightarrow> read_loop opts env st' qs
      | r \<Rightarrow> r)"
  by (induction ps arbitrary: st) (auto split: option.splits flow.splits)

lemma read_loop_duplicate:
  assumes "0 \<le>s timestamp p1" and "spu_start_pts p2 = spu_start_pts p1"
  shows "read_loop opts env st (p1 # p2 # qs) = read_loop opts env st (p1 # qs)"
proof (cases "process_packet opts env st p1")
  case None
  then show ?thesis by simp
next
  case (Some f)
  show ?thesis
  proof (cases f)
    case (Next st1)
    with Some assms have "process_packet opts env st1 p2 = Some (Next st1)"
      by (simp add: process_packet_skip process_packet_Next_last)
    with Some Next show ?thesis by simp
  next
    case (Return c st1)
    with Some show ?thesis by simp
  qed
qed

lemma read_loop_conv_subs:
  "read_loop opts env st ps = Some (Next st') \<Longrightarrow> \<exists>ys. conv_subs st' = conv_subs st @ ys"
proof (induction ps arbitrary: st)
  case Nil
  then show ?case by simp
next
  case (Cons p ps)
  from Cons.prems obtain st1 where
    p: "process_packet opts env st p = Some (Next st1)"
    and r: "read_loop opts env st1 ps = Some (Next st')"
    by (auto split: option.splits flow.splits)
  from process_packet_Next_conv_subs [OF p] obtain xs where
    "conv_subs st1 = conv_subs st @ xs" by auto
  moreover from Cons.IH [OF r] obtain ys where
    "conv_subs st' = conv_subs st1 @ ys" by auto
  ultimately show ?case by simp
qed

lemma read_loop_Return:
  "read_loop opts env st ps = Some (Return c st') \<Longrightarrow> c = - 1"
  by (induction ps arbitrary: st)
    (auto split: option.splits flow.splits dest: process_packet_Return)

text \<open>The counters of the collected results differ, as long as \<open>sub_counter\<close> has not
  wrapped around.\<close>

lemma counters_in_order_initial: "counters_in_order initial_state"
  by (simp add: counters_in_order_def initial_state_def)

lemma counters_in_order_step:
  assumes "counters_in_order st" and "process_packet opts env st p = Some (Next st')"
  shows "counters_in_order st'"
  using process_packet_Next_conv_subs [OF assms(2)] assms(1)
  by (auto simp: counters_in_order_def)

lemma counters_in_order_loop:
  "counters_in_order st \<Longrightarrow> read_loop opts env st ps = Some (Next st') \<Longrightarrow>
   counters_in_order st'"
proof (induction ps arbitrary: st)
  case Nil
  then show ?case by simp
next
  case (Cons p ps)
  from Cons.prems(2) obtain st1 where
    p: "process_packet opts env st p = Some (Next st1)"
    and r: "read_loop opts env st1 ps = Some (Next st')"
    by (auto split: option.splits flow.splits)
  from Cons.IH [OF counters_in_order_step [OF Cons.prems(1) p] r] show ?case .
qed

lemma counters_distinct:
  assumes "read_loop opts env initial_state ps = Some (Next st)"
    and "length (conv_subs st) < 2 ^ 32"
  shows "distinct (map counter (conv_subs st))"
proof -
  let ?n = "length (conv_subs st)"
  from counters_in_order_loop [OF counters_in_order_initial assms(1)]
  have m: "map counter (conv_subs st) = map (\<lambda>k. 1 + of_nat k) [0 ..< ?n]"
    by (simp add: counters_in_order_def)
  have "inj_on (word_of_nat :: nat \<Rightarrow> u32) {0 ..< 2 ^ 32}"
    using inj_on_word_of_nat [where 'a = 32] by simp
  with assms(2) have "inj_on (word_of_nat :: nat \<Rightarrow> u32) (set [0 ..< ?n])"
    by (auto intro: inj_on_subset)
  then have "inj_on (\<lambda>k. 1 + (of_nat k :: u32)) (set [0 ..< ?n])"
    by (auto simp: inj_on_def)
  then have "distinct (map (\<lambda>k. 1 + (of_nat k :: u32)) [0 ..< ?n])"
    by (simp add: distinct_map)
  with m show ?thesis by simp
qed

section \<open>The pool\<close>

lemma scan_done_flag: "scan_done ths k = Some i \<Longrightarrow> ocr_done (ths ! (i - k))"
proof (induction ths arbitrary: k)
  case Nil
  then show ?case by simp
next
  case (Cons x xs)
  show ?case
  proof (cases "ocr_done x")
    case True
    with Cons.prems show ?thesis by simp
  next
    case False
    with Cons.prems have s: "scan_done xs (Suc k) = Some i" by simp
    from scan_done_bound [OF s] have "Suc k \<le> i" by simp
    then have "i - k = Suc (i - Suc k)" by simp
    with Cons.IH [OF s] show ?thesis by simp
  qed
qed

text \<open>The three ways in which a slot is chosen.\<close>

lemma acquire_slot_cases:
  assumes "acquire_slot opts env st = Some (Inr (i, st1))"
  shows "(length (threads st) < unat (pool_size opts env) \<and> i = length (threads st) \<and>
          (\<exists>api. init_tesseract env (length (threads st)) = Some api \<and>
             threads st1 = threads st @ [\<lparr>ocr_t = None, ocr_done = False, tess_base_api = api\<rparr>]))
       \<or> (\<not> length (threads st) < unat (pool_size opts env) \<and> pool_size opts env = 1 \<and>
          i = 0 \<and> st1 = st)
       \<or> (\<not> length (threads st) < unat (pool_size opts env) \<and> pool_size opts env \<noteq> 1 \<and>
          scan_done (threads st) 0 = Some i \<and> i < length (threads st) \<and>
          ocr_done (threads st ! i) \<and>
          threads st1 = (threads st)[i := (threads st ! i)\<lparr>ocr_t := None\<rparr>])"
proof -
  consider "length (threads st) < unat (pool_size opts env)"
    | "\<not> length (threads st) < unat (pool_size opts env)" "pool_size opts env = 1"
    | "\<not> length (threads st) < unat (pool_size opts env)" "pool_size opts env \<noteq> 1"
    by blast
  then show ?thesis
  proof cases
    case 1
    with assms show ?thesis
      by (auto simp: acquire_slot_def split: option.splits)
  next
    case 2
    with assms show ?thesis by (auto simp: acquire_slot_def)
  next
    case 3
    with assms have s: "scan_done (threads st) 0 = Some i"
      and t: "threads st1 = (threads st)[i := (threads st ! i)\<lparr>ocr_t := None\<rparr>]"
      by (auto simp: acquire_slot_def poll_done_eq split: option.splits)
    from scan_done_bound [OF s] scan_done_flag [OF s] 3 s t show ?thesis by simp
  qed
qed

lemma list_all_nth_append:
  "list_all (\<lambda>j. f j < length xs \<and> P (xs ! f j)) js \<Longrightarrow>
   list_all (\<lambda>j. f j < length (xs @ ys) \<and> P ((xs @ ys) ! f j)) js"
  by (induction js) (auto simp: nth_append)

lemma list_all_nth_update:
  "list_all (\<lambda>j. f j < length xs \<and> P (xs ! f j)) js \<Longrightarrow> i \<notin> f ` set js \<Longrightarrow>
   list_all (\<lambda>j. f j < length (xs[i := x]) \<and> P (xs[i := x] ! f j)) js"
  by (induction js) auto

lemma list_all_update:
  "list_all P xs \<Longrightarrow> (i < length xs \<Longrightarrow> P x) \<Longrightarrow> list_all P (xs[i := x])"
  by (induction xs arbitrary: i) (auto split: nat.splits)

lemma list_all_ocr_t_update:
  assumes "list_all (\<lambda>x. ocr_t x = None) ths"
  shows "list_all (\<lambda>x. ocr_t x = None) (ths[i := (ths ! i)\<lparr>ocr_done := d\<rparr>])"
  using assms
proof (rule list_all_update)
  assume "i < length ths"
  with assms show "ocr_t ((ths ! i)\<lparr>ocr_done := d\<rparr>) = None"
    by (simp add: list_all_length)
qed

lemma do_ocr_threads:
  "threads (do_ocr env i c w h s im a b v st) = (threads st)[i := (threads st ! i)\<lparr>ocr_done := True\<rparr>]"
  by (simp add: do_ocr_def Let_def split: option.split)

lemma start_ocr_threads_inline:
  "pool_size opts env = 1 \<Longrightarrow>
   threads (start_ocr opts env i p im st) = (threads st)[i := (threads st ! i)\<lparr>ocr_done := True\<rparr>]"
  by (simp add: start_ocr_def Let_def do_ocr_threads)

lemma pool_inv_dispatch:
  assumes inv: "pool_inv opts env (st, live)"
    and d: "dispatch opts env p (st, live) = Some (st', live')"
  shows "pool_inv opts env (st', live')"
proof -
  let ?N = "pool_size opts env"
  let ?A = "\<lambda>ths (j :: job). job_slot j < length ths \<and> \<not> ocr_done (ths ! job_slot j)"
  from inv have len: "length (threads st) \<le> unat ?N"
    and dist: "distinct (map job_slot live)"
    and busy: "list_all (?A (threads st)) live"
    and one: "?N = 1 \<Longrightarrow> live = []"
    and none: "?N = 1 \<Longrightarrow> list_all (\<lambda>x. ocr_t x = None) (threads st)"
    by (simp_all add: pool_inv_def)
  from d obtain i st1 where a: "acquire_slot opts env st = Some (Inr (i, st1))"
    by (auto simp: dispatch_def split: option.splits sum.splits)
  note len1 = acquire_slot_pool [OF a len]
  show ?thesis
  proof (cases "?N = 1")
    case True
    with d a have st': "st' = start_ocr opts env i p (ImageInverter (img p)) st1"
      and live': "live' = live"
      by (simp_all add: dispatch_def)
    from acquire_slot_cases [OF a] none [OF True] True
    have "list_all (\<lambda>x. ocr_t x = None) (threads st1)" by auto
    then have "list_all (\<lambda>x. ocr_t x = None) (threads st')"
      unfolding st' start_ocr_threads_inline [OF True] by (rule list_all_ocr_t_update)
    with True one len1 st' live' show ?thesis by (simp add: pool_inv_def)
  next
    case False
    with d a have st': "st' = spawn_ocr i st1"
      and live': "live' = live @ [Job i (sub_counter st1) p]"
      by (simp_all add: dispatch_def)
    from acquire_slot_Inr(7) [OF a] have i: "i < length (threads st1)" .
    have fb: "i \<notin> job_slot ` set live \<and> list_all (?A (threads st1)) live"
    proof -
      from acquire_slot_cases [OF a] False
      consider (new) api where "i = length (threads st)"
          "threads st1 = threads st @ [\<lparr>ocr_t = None, ocr_done = False, tess_base_api = api\<rparr>]"
        | (old) "ocr_done (threads st ! i)"
          "threads st1 = (threads st)[i := (threads st ! i)\<lparr>ocr_t := None\<rparr>]"
        by blast
      then show ?thesis
      proof cases
        case new
        from busy new(1) have "i \<notin> job_slot ` set live"
          by (auto simp: list_all_iff)
        moreover from busy have "list_all (?A (threads st1)) live"
          unfolding new(2) by (rule list_all_nth_append)
        ultimately show ?thesis ..
      next
        case old
        from busy old(1) have f: "i \<notin> job_slot ` set live"
          by (auto simp: list_all_iff)
        from busy f have "list_all (?A (threads st1)) live"
          unfolding old(2) by (rule list_all_nth_update)
        with f show ?thesis ..
      qed
    qed
    then have fresh: "i \<notin> job_slot ` set live" and busy1: "list_all (?A (threads st1)) live"
      by simp_all
    let ?ths = "(threads st1)[i := (threads st1 ! i)\<lparr>ocr_done := False, ocr_t := Some (sub_counter st1)\<rparr>]"
    from busy1 fresh have "list_all (?A ?ths) live" by (rule list_all_nth_update)
    moreover from i have "?A ?ths (Job i (sub_counter st1) p)" by simp
    ultimately have "list_all (?A (threads st')) live'"
      by (simp add: st' live' spawn_ocr_def)
    moreover from dist fresh have "distinct (map job_slot live')" by (simp add: live')
    moreover from len1 have "length (threads st') \<le> unat ?N" by (simp add: st' spawn_ocr_def)
    ultimately show ?thesis using False by (simp add: pool_inv_def)
  qed
qed

lemma pool_inv_finish:
  assumes inv: "pool_inv opts env (st, live)"
    and f: "finish opts env i (st, live) = Some (st', live')"
  shows "pool_inv opts env (st', live')"
proof -
  let ?N = "pool_size opts env"
  let ?A = "\<lambda>ths (j :: job). job_slot j < length ths \<and> \<not> ocr_done (ths ! job_slot j)"
  from inv have len: "length (threads st) \<le> unat ?N"
    and dist: "distinct (map job_slot live)"
    and busy: "list_all (?A (threads st)) live"
    and one: "?N = 1 \<Longrightarrow> live = []"
    and none: "?N = 1 \<Longrightarrow> list_all (\<lambda>x. ocr_t x = None) (threads st)"
    by (simp_all add: pool_inv_def)
  from f obtain j where j: "find (\<lambda>j. job_slot j = i) live = Some j"
    and live': "live' = remove1 j live"
    and ths: "threads st' = (threads st)[i := (threads st ! i)\<lparr>ocr_done := True\<rparr>]"
    by (auto simp: finish_def do_ocr_threads split: option.splits)
  from j have jm: "j \<in> set live" and ji: "job_slot j = i"
    by (auto simp: find_Some_iff)
  from dist have dl: "distinct live" by (simp add: distinct_map)
  from dist jm ji dl have fresh: "i \<notin> job_slot ` set (remove1 j live)"
    by (auto simp: distinct_map inj_on_def)
  from busy have "list_all (?A (threads st)) (remove1 j live)"
    by (auto simp: list_all_iff dest: notin_set_remove1)
  from this fresh have "list_all (?A (threads st')) live'"
    unfolding ths live' by (rule list_all_nth_update)
  moreover from dist have "distinct (map job_slot live')"
    unfolding live' by (simp add: distinct_map dl inj_on_def)
  moreover from len have "length (threads st') \<le> unat ?N" by (simp add: ths)
  moreover from one jm have "?N \<noteq> 1" by auto
  ultimately show ?thesis by (simp add: pool_inv_def)
qed

lemma pool_inv_events:
  "pool_inv opts env cfg \<Longrightarrow> pool_events opts env cfg es = Some cfg' \<Longrightarrow>
   pool_inv opts env cfg'"
proof (induction es arbitrary: cfg)
  case Nil
  then show ?case by simp
next
  case (Cons e es)
  from Cons.prems(2) obtain cfg1 where s: "pool_step opts env cfg e = Some cfg1"
    and r: "pool_events opts env cfg1 es = Some cfg'"
    by (auto split: option.splits)
  have "pool_inv opts env cfg1"
  proof (cases e)
    case (Dispatch p)
    with s Cons.prems(1) show ?thesis
      by (cases cfg; cases cfg1) (auto intro: pool_inv_dispatch)
  next
    case (Finish i)
    with s Cons.prems(1) show ?thesis
      by (cases cfg; cases cfg1) (auto intro: pool_inv_finish)
  qed
  from Cons.IH [OF this r] show ?case .
qed

lemma pool_inv_initial: "pool_inv opts env (initial_state, [])"
  by (simp add: pool_inv_def initial_state_def)

lemma distinct_below_length:
  assumes "distinct xs" and "list_all (\<lambda>x. x < n) xs"
  shows "length xs \<le> (n :: nat)"
proof -
  from assms(2) have "set xs \<subseteq> {..<n}" by (auto simp: list_all_iff)
  then have "card (set xs) \<le> card {..<n}" by (intro card_mono) simp_all
  with assms(1) show ?thesis by (simp add: distinct_card)
qed

lemma pool_inv_live:
  assumes "pool_inv opts env (st, live)"
  shows "length live \<le> length (threads st)"
proof -
  from assms have "distinct (map job_slot live)"
    and "list_all (\<lambda>x. x < length (threads st)) (map job_slot live)"
    by (auto simp: pool_inv_def list_all_iff)
  from distinct_below_length [OF this] show ?thesis by simp
qed


lemma dispatch_inline:
  assumes "pool_size opts env = 1" and "dispatch opts env p (st, live) = Some (st', live')"
  shows "live' = live" and "length (conv_subs st') = length (conv_subs st) + 1"
proof -
  from assms(2) obtain i st1 where a: "acquire_slot opts env st = Some (Inr (i, st1))"
    by (auto simp: dispatch_def split: option.splits sum.splits)
  with assms have st': "st' = start_ocr opts env i p (ImageInverter (img p)) st1"
    and l: "live' = live"
    by (simp_all add: dispatch_def)
  from l show "live' = live" .
  from acquire_slot_Inr(3) [OF a] show "length (conv_subs st') = length (conv_subs st) + 1"
    by (simp add: st' start_ocr_conv_subs)
qed

lemma pool_events_append:
  "pool_events opts env cfg (es @ fs) =
     (case pool_events opts env cfg es of
        None \<Rightarrow> None
      | Some cfg1 \<Rightarrow> pool_events opts env cfg1 fs)"
  by (induction es arbitrary: cfg) (auto split: option.splits)

section \<open>The run\<close>

lemma main_Cons_skip:
  assumes "process_packet opts env initial_state p = Some (Next initial_state)"
  shows "main opts env (p # ps) = main opts env ps"
  using assms by (simp add: main_def)

lemma main_read_loop_cong:
  "read_loop opts env initial_state ps = read_loop opts env initial_state qs \<Longrightarrow>
   main opts env ps = main opts env qs"
  by (simp add: main_def)

lemma main_returned:
  assumes "fopen_ok env" and "read_loop opts env initial_state ps = Some (Return c st)"
  shows "main opts env ps = Some \<lparr>exit_status = Returned c, srtout = Some [], final_state = st\<rparr>"
  using assms by (simp add: main_def)

lemma main_Returned_0:
  assumes "main opts env ps = Some \<lparr>exit_status = Returned 0, srtout = Some out, final_state = fs\<rparr>"
  shows "\<exists>st. read_loop opts env initial_state ps = Some (Next st)"
proof (cases "read_loop opts env initial_state ps")
  case None
  with assms show ?thesis by (simp add: main_def split: if_splits)
next
  case (Some f)
  show ?thesis
  proof (cases f)
    case (Next st)
    with Some show ?thesis by simp
  next
    case (Return c st)
    with Some have "c = - 1" by (auto dest: read_loop_Return)
    with assms Some Return show ?thesis by (simp add: main_def split: if_splits)
  qed
qed

lemma main_completed:
  assumes "main opts env ps = Some \<lparr>exit_status = Returned 0, srtout = Some out, final_state = fs\<rparr>"
    and "read_loop opts env initial_state ps = Some (Next st)"
  shows "fst (write_loop (dumb opts) (std_sort sort_fct (conv_subs st)) 0 []) = None"
    and "out = snd (snd (write_loop (dumb opts) (std_sort sort_fct (conv_subs st)) 0 []))"
  using assms by (auto simp: main_def split: if_splits prod.splits option.splits)

lemma main_writes:
  assumes "fopen_ok env" and "read_loop opts env initial_state ps = Some (Next stf)"
    and "fst (write_loop (dumb opts) (std_sort sort_fct (conv_subs stf)) 0 []) = None"
  shows "main opts env ps =
     Some \<lparr>exit_status = Returned 0,
           srtout = Some (snd (snd (write_loop (dumb opts) (std_sort sort_fct (conv_subs stf)) 0 []))),
           final_state = stf\<lparr>conv_subs :=
             fst (snd (write_loop (dumb opts) (std_sort sort_fct (conv_subs stf)) 0 []))\<rparr>\<rparr>"
  using assms
  by (cases "write_loop (dumb opts) (std_sort sort_fct (conv_subs stf)) 0 []")
    (simp add: main_def)

section \<open>The claims\<close>

subsection \<open>The time stamps written\<close>

text \<open>
  Claim C2. For every 32-bit timestamp \<open>pts\<close> (in units of 1/90 ms) the fields of
  \<open>pts2srt\<close> decompose \<open>pts / 90\<close>: hours * 3600000 + minutes * 60000 + seconds * 1000
  + milliseconds is \<open>pts / 90\<close>, minutes and seconds are below 60 and milliseconds below
  1000. The string is hours, a colon, minutes, a colon, seconds, a comma and milliseconds;
  each part consists of decimal digits and denotes its field; minutes and seconds have
  exactly 2 digits, milliseconds exactly 3, hours 2 or as many as the number has when it
  has more. The timestamp 9000 is written \<open>00:00:00,100\<close>.
\<close>

theorem pts2srt_decomposition:
  "\<exists>h m s ms hh mm ss mmm.
     pts2srt_fields pts = (h, m, s, ms) \<and>
     unat h * 3600000 + unat m * 60000 + unat s * 1000 + unat ms = unat pts div 90 \<and>
     unat m < 60 \<and> unat s < 60 \<and> unat ms < 1000 \<and>
     pts2srt pts = hh @ '':'' @ mm @ '':'' @ ss @ '','' @ mmm \<and>
     list_all is_digit hh \<and> list_all is_digit mm \<and>
     list_all is_digit ss \<and> list_all is_digit mmm \<and>
     dec_value hh = unat h \<and> dec_value mm = unat m \<and>
     dec_value ss = unat s \<and> dec_value mmm = unat ms \<and>
     length hh = max 2 (length (dec_digits (unat h))) \<and>
     length mm = 2 \<and> length ss = 2 \<and> length mmm = 3 \<and>
     pts2srt 9000 = ''00:00:00,100''"
proof -
  obtain h m s ms where f: "pts2srt_fields pts = (h, m, s, ms)"
    by (cases "pts2srt_fields pts") auto
  define T where "T = unat pts div 90"
  note u = pts2srt_fields_unat [OF f, folded T_def]
  have sum: "unat h * 3600000 + unat m * 60000 + unat s * 1000 + unat ms = T"
    unfolding u by (rule fields_sum)
  have bm: "unat m < 60" and bs: "unat s < 60" and bms: "unat ms < 1000"
    unfolding u by (rule fields_bounds)+
  have bh: "unat h < 14"
    unfolding u T_def by (rule hours_bound)
  have sh: "sint h = int (unat h)" using bh by (intro sint_small) simp
  have sm: "sint m = int (unat m)" using bm by (intro sint_small) simp
  have ss: "sint s = int (unat s)" using bs by (intro sint_small) simp
  have sms: "sint ms = int (unat ms)" using bms by (intro sint_small) simp
  define hh where "hh = printf_0d 2 (sint h)"
  define mm where "mm = printf_0d 2 (sint m)"
  define sss where "sss = printf_0d 2 (sint s)"
  define mmm where "mmm = printf_0d 3 (sint ms)"
  have lh: "length hh = 2"
    unfolding hh_def sh using bh by (intro length_printf_0d_fit) simp_all
  have lm: "length mm = 2"
    unfolding mm_def sm using bm by (intro length_printf_0d_fit) simp_all
  have ls: "length sss = 2"
    unfolding sss_def ss using bs by (intro length_printf_0d_fit) simp_all
  have lms: "length mmm = 3"
    unfolding mmm_def sms using bms by (intro length_printf_0d_fit) simp_all
  have lh': "length hh = max 2 (length (dec_digits (unat h)))"
    unfolding hh_def sh by (rule length_printf_0d)
  have str: "pts2srt pts = hh @ '':'' @ mm @ '':'' @ sss @ '','' @ mmm"
    by (simp add: pts2srt_def f snprintf_def buf_length_def lh lm ls lms
        hh_def [symmetric] mm_def [symmetric] sss_def [symmetric] mmm_def [symmetric])
  have dg: "list_all is_digit hh" "list_all is_digit mm"
    "list_all is_digit sss" "list_all is_digit mmm"
    unfolding hh_def mm_def sss_def mmm_def sh sm ss sms printf_0d_nat
    by (intro is_digit_zero_pad is_digit_dec_digits)+
  have dv: "dec_value hh = unat h" "dec_value mm = unat m"
    "dec_value sss = unat s" "dec_value mmm = unat ms"
    unfolding hh_def mm_def sss_def mmm_def sh sm ss sms printf_0d_nat
    by (simp_all add: dec_value_zero_pad dec_value_dec_digits)
  have ex: "pts2srt 9000 = ''00:00:00,100''" by code_simp
  show ?thesis
    using f sum bm bs bms str dg dv lh' lm ls lms ex unfolding T_def by blast
qed

subsection \<open>The order of the results\<close>

text \<open>
  Claim C3. When the counters of the collected results \<open>xs\<close> are pairwise distinct, every
  result \<open>ys\<close> that \<open>std::sort\<close> with \<open>sort_fct\<close> may leave is strictly ascending in the
  counter and has no counter twice; it is the one list that the sort by insertion
  computes, whatever the order in which the threads appended. (The counters of the
  results that a run collects are pairwise distinct as long as there are fewer than
  \<open>2 ^ 32\<close> of them: \<open>counters_distinct\<close>.)
\<close>

theorem sort_strictly_ascending:
  assumes "distinct (map counter xs)" and "std_sort_result sort_fct xs ys"
  shows "sorted_wrt (\<lambda>a b. counter a < counter b) ys \<and> distinct (map counter ys)
         \<and> ys = std_sort sort_fct xs"
  using sorted_result_strict [OF assms]
    sorted_result_unique [OF assms(1) assms(2) std_sort_conforms]
  by simp

theorem sort_strictly_ascending_witness:
  "distinct (map counter [sample_result 2 18000 27000, sample_result 1 9000 18000]) \<and>
   std_sort_result sort_fct
     [sample_result 2 18000 27000, sample_result 1 9000 18000]
     [sample_result 1 9000 18000, sample_result 2 18000 27000] \<and>
   sorted_wrt (\<lambda>a b. counter a < counter b)
     [sample_result 1 9000 18000, sample_result 2 18000 27000] \<and>
   distinct (map counter [sample_result 1 9000 18000, sample_result 2 18000 27000]) \<and>
   [sample_result 1 9000 18000, sample_result 2 18000 27000] =
     std_sort sort_fct [sample_result 2 18000 27000, sample_result 1 9000 18000]"
proof -
  let ?a = "sample_result 1 9000 18000" and ?b = "sample_result 2 18000 27000"
  have d: "distinct (map counter [?b, ?a])" by (simp add: sample_result_def)
  have "mset [?a, ?b] = mset [?b, ?a]" by (simp add: add_mset_commute)
  moreover have "sorted_wrt (\<lambda>a b. \<not> sort_fct b a) [?a, ?b]"
    by (simp add: sort_fct_def sample_result_def)
  ultimately have r: "std_sort_result sort_fct [?b, ?a] [?a, ?b]"
    unfolding std_sort_result_def by (intro conjI)
  from sort_strictly_ascending [OF d r] d r show ?thesis by blast
qed

subsection \<open>The repair of the end time stamps\<close>

text \<open>
  Claim C1, at two accepted frames whose ends are both unknown (\<open>UINT_MAX\<close>), without
  \<open>--dumb\<close>. The first result is written with the start of the second as its end. For the
  second, the last one, the test \<open>end_pts == UINT_MAX\<close> holds as well and is not guarded
  by \<open>i + 1 < conv_subs.size ()\<close>: the loop reads \<open>conv_subs[2]\<close> of a collection of
  two, and the last result is not written with its sentinel. With two threads and three
  such frames the loop reads \<open>conv_subs[3]\<close> likewise.
\<close>

theorem last_sentinel_not_written:
  "map_option exit_status
     (main sample_options sample_environment [sample_frame 9000, sample_frame 18000])
     = Some (Read_out_of_range 2) \<and>
   map_option srtout
     (main sample_options sample_environment [sample_frame 9000, sample_frame 18000])
     = Some (Some [srt_record (sample_result 1 9000 18000)]) \<and>
   map_option exit_status
     (main sample_options2 sample_environment
        [sample_frame 9000, sample_frame 18000, sample_frame 27000])
     = Some (Read_out_of_range 3)"
  by code_simp

text \<open>
  Claim C9. For every non-empty collection whose last result ends at the sentinel, with
  or without \<open>--dumb\<close>, the writing loop reads the element at the index
  \<open>length subs\<close>, which is not below the size of the collection; by then it has written
  the records of all results but the last.
\<close>

theorem write_loop_reads_past_end:
  assumes "subs \<noteq> []" and "end_pts (last subs) = UINT_MAX"
  shows "fst (write_loop dmb subs 0 []) = Some (length subs) \<and>
         snd (snd (write_loop dmb subs 0 [])) =
           map (\<lambda>k. srt_record (repaired dmb subs k)) [0 ..< length subs - 1]"
  using assms by (simp add: write_loop_fault write_loop_out)

theorem write_loop_reads_past_end_witness:
  "[sample_result 1 9000 UINT_MAX] \<noteq> [] \<and>
   end_pts (last [sample_result 1 9000 UINT_MAX]) = UINT_MAX \<and>
   fst (write_loop False [sample_result 1 9000 UINT_MAX] 0 []) = Some 1 \<and>
   snd (snd (write_loop False [sample_result 1 9000 UINT_MAX] 0 [])) = []"
proof -
  have a: "[sample_result 1 9000 UINT_MAX] \<noteq> []" by simp
  have b: "end_pts (last [sample_result 1 9000 UINT_MAX]) = UINT_MAX"
    by (simp add: sample_result_def)
  from write_loop_reads_past_end [OF a b, of False] a b show ?thesis by simp
qed

subsection \<open>Frames that are skipped\<close>

text \<open>
  Claim C10. \<open>last_start_pts\<close> starts at 0, so a first decoded frame whose start is 0 is
  taken for a repeated packet: the body leaves the initial state as it is (no result, no
  slot, the counter still 1), and the run is the run without that packet.
\<close>

theorem first_frame_at_zero_is_dropped:
  assumes "0 \<le>s timestamp p" and "spu_start_pts p = 0"
  shows "last_start_pts initial_state = 0 \<and> conv_subs initial_state = [] \<and>
         process_packet opts env initial_state p = Some (Next initial_state) \<and>
         main opts env (p # ps) = main opts env ps"
proof -
  have l: "last_start_pts initial_state = 0" "conv_subs initial_state = []"
    by (simp_all add: initial_state_def)
  with assms have "process_packet opts env initial_state p = Some (Next initial_state)"
    by (simp add: process_packet_skip)
  with l show ?thesis by (simp add: main_Cons_skip)
qed

theorem first_frame_at_zero_is_dropped_witness:
  "0 \<le>s timestamp (sample_frame 0) \<and> spu_start_pts (sample_frame 0) = 0 \<and>
   process_packet sample_options sample_environment initial_state (sample_frame 0)
     = Some (Next initial_state) \<and>
   main sample_options sample_environment [sample_frame 0] = main sample_options sample_environment []"
proof -
  have a: "0 \<le>s timestamp (sample_frame 0)" by (simp add: sample_frame_def)
  have b: "spu_start_pts (sample_frame 0) = 0" by (simp add: sample_frame_def)
  from first_frame_at_zero_is_dropped [OF a b, of sample_options sample_environment "[]"] a b
  show ?thesis by simp
qed

text \<open>
  Claim C6, as amended. A frame whose width is below \<open>min_width\<close> or whose height is below
  \<open>min_height\<close> (as integers) ends the body with the next packet: the pool, the
  collected results, the counter, \<open>cout\<close> and the dumped images are as before, and the
  outcome does not depend on the engines (\<open>env'\<close> is any other environment). When the
  frame reaches the gate (its time stamp is not negative and its start is not the start
  of the frame before), the warning \<open>Image too small\<close> is written to \<open>cerr\<close>.
\<close>

theorem small_frame_is_skipped:
  assumes "uint (width p) < sint (min_width opts) \<or> uint (height p) < sint (min_height opts)"
  shows "\<exists>st'. process_packet opts env st p = Some (Next st') \<and>
           threads st' = threads st \<and> conv_subs st' = conv_subs st \<and>
           sub_counter st' = sub_counter st \<and> cout st' = cout st \<and>
           dumped st' = dumped st \<and>
           process_packet opts env' st p = process_packet opts env st p \<and>
           (0 \<le>s timestamp p \<and> spu_start_pts p \<noteq> last_start_pts st \<longrightarrow>
              cerr st' = cerr st @
                [Image_too_small (sub_counter st) (length (img p)) (width p) (height p)
                   (min_width opts) (min_height opts)])"
proof -
  from assms have s: "width p < min_width opts \<or> height p < min_height opts"
    by (auto dest: below_minimum)
  show ?thesis
  proof (cases "0 \<le>s timestamp p \<and> spu_start_pts p \<noteq> last_start_pts st")
    case True
    with s show ?thesis by (simp add: process_packet_small)
  next
    case False
    then have "\<not> 0 \<le>s timestamp p \<or> spu_start_pts p = last_start_pts st" by blast
    then have "process_packet opts e st p = Some (Next st)" for e
      by (rule process_packet_skip)
    with False show ?thesis by simp
  qed
qed

text \<open>
  Claim C6 as stated fails: not every frame below the minimum is skipped with a
  diagnostic. A frame of 2 by 1 pixels with the start of the frame before it is skipped
  by the test for repeated packets, which comes before the gate: nothing is written to
  \<open>cerr\<close>.
\<close>

theorem small_duplicate_without_warning:
  "uint (width (small_frame 9000)) < sint (min_width sample_options) \<and>
   0 \<le>s timestamp (small_frame 9000) \<and>
   read_loop sample_options sample_environment initial_state [sample_frame 9000]
     = Some (Next sample_state) \<and>
   process_packet sample_options sample_environment sample_state (small_frame 9000)
     = Some (Next sample_state) \<and>
   cerr sample_state = []"
proof -
  have "uint (width (small_frame 9000)) < sint (min_width sample_options)"
    by (simp add: small_frame_def sample_frame_def sample_options_def)
  moreover have "0 \<le>s timestamp (small_frame 9000)"
    by (simp add: small_frame_def sample_frame_def word_sle_eq)
  moreover have "read_loop sample_options sample_environment initial_state [sample_frame 9000]
     = Some (Next sample_state)"
    by code_simp
  moreover have "process_packet sample_options sample_environment sample_state (small_frame 9000)
     = Some (Next sample_state)"
    by code_simp
  moreover have "cerr sample_state = []" by (simp add: sample_state_def)
  ultimately show ?thesis by blast
qed

theorem small_frame_is_skipped_witness:
  "(uint (width (small_frame 9000)) < sint (min_width sample_options) \<or>
    uint (height (small_frame 9000)) < sint (min_height sample_options)) \<and>
   0 \<le>s timestamp (small_frame 9000) \<and>
   spu_start_pts (small_frame 9000) \<noteq> last_start_pts initial_state \<and>
   (\<exists>st'. process_packet sample_options sample_environment initial_state (small_frame 9000)
            = Some (Next st') \<and>
      threads st' = [] \<and> conv_subs st' = [] \<and> sub_counter st' = 1 \<and>
      cerr st' = [Image_too_small 1 2 2 1 9 1])"
proof -
  have a: "uint (width (small_frame 9000)) < sint (min_width sample_options) \<or>
    uint (height (small_frame 9000)) < sint (min_height sample_options)"
    by (simp add: small_frame_def sample_frame_def sample_options_def)
  have b: "0 \<le>s timestamp (small_frame 9000)"
    "spu_start_pts (small_frame 9000) \<noteq> last_start_pts initial_state"
    by (simp_all add: small_frame_def sample_frame_def initial_state_def word_sle_eq)
  have c: "length (img (small_frame 9000)) = 2" "width (small_frame 9000) = 2"
    "height (small_frame 9000) = 1" "min_width sample_options = 9"
    "min_height sample_options = 1" "threads initial_state = []"
    "conv_subs initial_state = []" "sub_counter initial_state = 1" "cerr initial_state = []"
    by (simp_all add: small_frame_def sample_frame_def sample_options_def initial_state_def)
  from small_frame_is_skipped [OF a, of sample_environment initial_state sample_environment] b
  obtain st' where
    "process_packet sample_options sample_environment initial_state (small_frame 9000)
       = Some (Next st')"
    "threads st' = threads initial_state" "conv_subs st' = conv_subs initial_state"
    "sub_counter st' = sub_counter initial_state"
    "cerr st' = cerr initial_state @
       [Image_too_small (sub_counter initial_state) (length (img (small_frame 9000)))
          (width (small_frame 9000)) (height (small_frame 9000))
          (min_width sample_options) (min_height sample_options)]"
    by blast
  then show ?thesis using a b unfolding c by auto
qed

text \<open>
  Claim C4, as amended. Of two consecutive decoded frames with the same start, the second
  is skipped before anything else is done with it: the state after it is the state
  before it (no warning, no image, no slot, no counter, no result), and the whole run is
  the run without that packet. The first of the two gives at most one result (one with
  the counter and the time stamps of that frame), and exactly one when it is itself
  processed: when its start differs from the start of the frame before it, it passes
  the gate and the body obtains a slot for it (ends with the next packet).
\<close>

theorem duplicate_start_is_skipped:
  assumes "0 \<le>s timestamp p1" and "spu_start_pts p2 = spu_start_pts p1"
  shows "main opts env (ps @ p1 # p2 # qs) = main opts env (ps @ p1 # qs) \<and>
         (\<forall>st1. process_packet opts env st p1 = Some (Next st1) \<longrightarrow>
            process_packet opts env st1 p2 = Some (Next st1) \<and>
            (conv_subs st1 = conv_subs st \<and> sub_counter st1 = sub_counter st \<or>
             (\<exists>tx. conv_subs st1 = conv_subs st @
                [\<lparr>counter = sub_counter st, start_pts = spu_start_pts p1,
                  end_pts = spu_end_pts p1, sub_text = tx\<rparr>] \<and>
              sub_counter st1 = sub_counter st + 1)) \<and>
            (spu_start_pts p1 \<noteq> last_start_pts st \<and> \<not> width p1 < min_width opts \<and>
             \<not> height p1 < min_height opts \<longrightarrow>
               length (conv_subs st1) = length (conv_subs st) + 1))"
proof (intro conjI allI impI)
  show "main opts env (ps @ p1 # p2 # qs) = main opts env (ps @ p1 # qs)"
    by (rule main_read_loop_cong)
      (auto simp: read_loop_append read_loop_duplicate [OF assms] simp del: read_loop.simps
        split: option.splits flow.splits)
next
  fix st1 assume n: "process_packet opts env st p1 = Some (Next st1)"
  with assms show "process_packet opts env st1 p2 = Some (Next st1)"
    by (simp add: process_packet_skip process_packet_Next_last)
  from n show "conv_subs st1 = conv_subs st \<and> sub_counter st1 = sub_counter st \<or>
             (\<exists>tx. conv_subs st1 = conv_subs st @
                [\<lparr>counter = sub_counter st, start_pts = spu_start_pts p1,
                  end_pts = spu_end_pts p1, sub_text = tx\<rparr>] \<and>
              sub_counter st1 = sub_counter st + 1)"
    by (rule process_packet_Next_conv_subs)
  assume "spu_start_pts p1 \<noteq> last_start_pts st \<and> \<not> width p1 < min_width opts \<and>
             \<not> height p1 < min_height opts"
  with assms(1) n show "length (conv_subs st1) = length (conv_subs st) + 1"
    by (intro process_packet_accepted_Next [of p1 st opts env st1]) simp_all
qed

text \<open>
  Claim C4 as stated fails: a pair of consecutive frames with the same start need not
  give one processed frame. Two equal frames of 2 by 1 pixels give none, since the first
  is rejected by the gate; and of three consecutive frames with the same start, the
  second and the third give none either.
\<close>

theorem duplicate_pair_without_result:
  "0 \<le>s timestamp (small_frame 9000) \<and>
   (\<exists>st2. read_loop sample_options sample_environment initial_state
            [small_frame 9000, small_frame 9000] = Some (Next st2) \<and>
      conv_subs st2 = [] \<and> sub_counter st2 = 1 \<and> threads st2 = []) \<and>
   0 \<le>s timestamp (sample_frame 9000) \<and>
   (\<exists>st1 st3. read_loop sample_options sample_environment initial_state [sample_frame 9000]
            = Some (Next st1) \<and>
      read_loop sample_options sample_environment st1 [sample_frame 9000, sample_frame 9000]
            = Some (Next st3) \<and>
      conv_subs st3 = conv_subs st1 \<and> sub_counter st3 = sub_counter st1)"
proof -
  have a: "0 \<le>s timestamp (small_frame 9000)" "0 \<le>s timestamp (sample_frame 9000)"
    by (simp_all add: small_frame_def sample_frame_def word_sle_eq)
  have b: "read_loop sample_options sample_environment initial_state
            [small_frame 9000, small_frame 9000]
        = Some (Next (initial_state\<lparr>last_start_pts := 9000,
                 cerr := [Image_too_small 1 2 2 1 9 1]\<rparr>))"
    by code_simp
  have c: "read_loop sample_options sample_environment initial_state [sample_frame 9000]
        = Some (Next sample_state)"
    by code_simp
  have d: "read_loop sample_options sample_environment
          sample_state
          [sample_frame 9000, sample_frame 9000]
        = Some (Next sample_state)"
    by code_simp
  have e: "conv_subs (initial_state\<lparr>last_start_pts := 9000,
                 cerr := [Image_too_small 1 2 2 1 9 1]\<rparr>) = []"
    "sub_counter (initial_state\<lparr>last_start_pts := 9000,
                 cerr := [Image_too_small 1 2 2 1 9 1]\<rparr>) = 1"
    "threads (initial_state\<lparr>last_start_pts := 9000,
                 cerr := [Image_too_small 1 2 2 1 9 1]\<rparr>) = []"
    by (simp_all add: initial_state_def)
  show ?thesis
    using a b c d e by blast
qed

theorem duplicate_start_is_skipped_witness:
  "0 \<le>s timestamp (sample_frame 9000) \<and>
   spu_start_pts (sample_frame 9000) = spu_start_pts (sample_frame 9000) \<and>
   main sample_options sample_environment [sample_frame 9000, sample_frame 9000]
     = main sample_options sample_environment [sample_frame 9000] \<and>
   (\<exists>st1. process_packet sample_options sample_environment initial_state (sample_frame 9000)
            = Some (Next st1) \<and>
      process_packet sample_options sample_environment st1 (sample_frame 9000)
            = Some (Next st1) \<and>
      length (conv_subs st1) = length (conv_subs initial_state) + 1)"
proof -
  let ?st1 = "sample_state"
  have a: "0 \<le>s timestamp (sample_frame 9000)"
    by (simp add: sample_frame_def word_sle_eq)
  have b: "spu_start_pts (sample_frame 9000) = spu_start_pts (sample_frame 9000)" ..
  have c: "process_packet sample_options sample_environment initial_state (sample_frame 9000)
             = Some (Next ?st1)"
    by code_simp
  have d: "spu_start_pts (sample_frame 9000) \<noteq> last_start_pts initial_state \<and>
           \<not> width (sample_frame 9000) < min_width sample_options \<and>
           \<not> height (sample_frame 9000) < min_height sample_options"
    by (simp add: sample_frame_def sample_options_def initial_state_def)
  note t = duplicate_start_is_skipped [OF a b, of sample_options sample_environment]
  from t [of "[]" "[]" initial_state] have
    "main sample_options sample_environment [sample_frame 9000, sample_frame 9000]
       = main sample_options sample_environment [sample_frame 9000]"
    by simp
  moreover from t [of "[]" "[]" initial_state] c d have
    "process_packet sample_options sample_environment ?st1 (sample_frame 9000) = Some (Next ?st1)
     \<and> length (conv_subs ?st1) = length (conv_subs initial_state) + 1"
    by blast
  ultimately show ?thesis using a b c by blast
qed

subsection \<open>Failures of the engine\<close>

text \<open>
  Claim C7. Let the \<open>.srt\<close> file be open and the loop have reached the state \<open>st\<close> after
  the packets \<open>ps1\<close>. When the next packet \<open>p\<close> is an accepted frame, the pool is still
  smaller than \<open>max_threads\<close> and \<open>init_tesseract\<close> returns \<open>NULL\<close>, then \<open>main\<close> returns
  \<open>- 1\<close>, which is not 0, at once: the packets \<open>ps2\<close> after \<open>p\<close> are not read, nothing
  has been written to the \<open>.srt\<close> file, and no result, slot or counter was added for \<open>p\<close>.
\<close>

theorem engine_failure_is_fatal:
  assumes "fopen_ok env"
    and "read_loop opts env initial_state ps1 = Some (Next st)"
    and "0 \<le>s timestamp p" and "spu_start_pts p \<noteq> last_start_pts st"
    and "\<not> (width p < min_width opts \<or> height p < min_height opts)"
    and "length (threads st) < unat (pool_size opts env)"
    and "init_tesseract env (length (threads st)) = None"
  shows "\<exists>st'. main opts env (ps1 @ p # ps2) =
           Some \<lparr>exit_status = Returned (- 1), srtout = Some [], final_state = st'\<rparr> \<and>
           conv_subs st' = conv_subs st \<and> threads st' = threads st \<and>
           sub_counter st' = sub_counter st \<and> (- 1 :: u32) \<noteq> 0"
proof -
  let ?st' = "preprocess opts p (st\<lparr>last_start_pts := spu_start_pts p\<rparr>)"
  from assms(6,7) have "acquire_slot opts env ?st' = Some (Inl ?st')"
    by (simp add: acquire_slot_Inl)
  with assms(3,4,5) have "process_packet opts env st p = Some (Return (- 1) ?st')"
    by (simp add: process_packet_accepted)
  with assms(2) have "read_loop opts env initial_state (ps1 @ p # ps2) = Some (Return (- 1) ?st')"
    by (simp add: read_loop_append)
  with assms(1) have "main opts env (ps1 @ p # ps2) =
      Some \<lparr>exit_status = Returned (- 1), srtout = Some [], final_state = ?st'\<rparr>"
    by (rule main_returned)
  then show ?thesis by simp
qed

theorem engine_failure_is_fatal_witness:
  "fopen_ok no_engine_environment \<and>
   read_loop sample_options no_engine_environment initial_state [] = Some (Next initial_state) \<and>
   0 \<le>s timestamp (sample_frame 9000) \<and>
   spu_start_pts (sample_frame 9000) \<noteq> last_start_pts initial_state \<and>
   \<not> (width (sample_frame 9000) < min_width sample_options \<or>
       height (sample_frame 9000) < min_height sample_options) \<and>
   length (threads initial_state) < unat (pool_size sample_options no_engine_environment) \<and>
   init_tesseract no_engine_environment (length (threads initial_state)) = None \<and>
   (\<exists>st'. main sample_options no_engine_environment [sample_frame 9000, sample_frame 18000] =
      Some \<lparr>exit_status = Returned (- 1), srtout = Some [], final_state = st'\<rparr> \<and>
      conv_subs st' = [])"
proof -
  have a: "fopen_ok no_engine_environment"
    by (simp add: no_engine_environment_def sample_environment_def)
  have b: "read_loop sample_options no_engine_environment initial_state [] = Some (Next initial_state)"
    by simp
  have c: "0 \<le>s timestamp (sample_frame 9000)"
    by (simp add: sample_frame_def word_sle_eq)
  have d: "spu_start_pts (sample_frame 9000) \<noteq> last_start_pts initial_state"
    by (simp add: sample_frame_def initial_state_def)
  have e: "\<not> (width (sample_frame 9000) < min_width sample_options \<or>
       height (sample_frame 9000) < min_height sample_options)"
    by (simp add: sample_frame_def sample_options_def)
  have f: "length (threads initial_state) < unat (pool_size sample_options no_engine_environment)"
    by (simp add: initial_state_def pool_size_def sample_options_def word_sle_eq)
  have g: "init_tesseract no_engine_environment (length (threads initial_state)) = None"
    by (simp add: no_engine_environment_def)
  have h: "conv_subs initial_state = []" by (simp add: initial_state_def)
  from engine_failure_is_fatal [OF a b c d e f g, of "[sample_frame 18000]"] h
  have "\<exists>st'. main sample_options no_engine_environment [sample_frame 9000, sample_frame 18000] =
      Some \<lparr>exit_status = Returned (- 1), srtout = Some [], final_state = st'\<rparr> \<and>
      conv_subs st' = []"
    by auto
  with a b c d e f g show ?thesis by blast
qed

text \<open>
  Claim C5, as amended. Let the \<open>.srt\<close> file be open and the loop have reached the state
  \<open>st\<close> after the packets \<open>ps1\<close>, let the next packet \<open>p\<close> be an accepted frame for which
  the slot \<open>i\<close> is obtained, and let \<open>TesseractRect\<close> fail (return \<open>NULL\<close>) on its image.
  Then the body ends with the next packet: the line \<open>ERROR: OCR failed for\<close> with the
  counter is written to \<open>cerr\<close>, a result with the counter and the time stamps of the
  frame and with a null text is appended, the counter is increased, and the loop goes on
  with the packets \<open>ps2\<close>. When the loop comes to its end with them (no later engine
  fails to be created) and the end of the last result is known, \<open>main\<close> returns 0 and has
  written one record for each result, among them a record with the counter and the start
  of the frame and with \<open>(null)\<close> as its text.
\<close>

theorem recognition_failure_is_not_fatal:
  assumes op: "fopen_ok env"
    and reach: "read_loop opts env initial_state ps1 = Some (Next st)"
    and acc: "0 \<le>s timestamp p" "spu_start_pts p \<noteq> last_start_pts st"
      "\<not> (width p < min_width opts \<or> height p < min_height opts)"
    and slot: "acquire_slot opts env (preprocess opts p (st\<lparr>last_start_pts := spu_start_pts p\<rparr>))
                 = Some (Inr (i, st1))"
    and fail: "TesseractRect env (tess_base_api (threads st1 ! i)) (ImageInverter (img p))
                 (stride p) (width p) (height p) = None"
  shows "\<exists>st'. process_packet opts env st p = Some (Next st') \<and>
           conv_subs st' = conv_subs st @
             [\<lparr>counter = sub_counter st, start_pts = spu_start_pts p,
               end_pts = spu_end_pts p, sub_text = None\<rparr>] \<and>
           cerr st' = cerr st1 @ [OCR_failed (sub_counter st)] \<and>
           sub_counter st' = sub_counter st + 1 \<and>
           read_loop opts env initial_state (ps1 @ p # ps2) = read_loop opts env st' ps2 \<and>
           (\<forall>stf. read_loop opts env st' ps2 = Some (Next stf) \<and>
                  end_pts (last (std_sort sort_fct (conv_subs stf))) \<noteq> UINT_MAX \<longrightarrow>
              (\<exists>out fs e.
                 main opts env (ps1 @ p # ps2) =
                   Some \<lparr>exit_status = Returned 0, srtout = Some out, final_state = fs\<rparr> \<and>
                 length out = length (conv_subs stf) \<and>
                 printf_u (sub_counter st) @ [CHR 0x0A] @ pts2srt (spu_start_pts p) @
                 '' --> '' @ pts2srt e @ [CHR 0x0A] @ ''(null)'' @ [CHR 0x0A, CHR 0x0A]
                 \<in> set out))"
proof -
  let ?r = "\<lparr>counter = sub_counter st, start_pts = spu_start_pts p,
               end_pts = spu_end_pts p, sub_text = None\<rparr>"
  let ?st' = "start_ocr opts env i p (ImageInverter (img p)) st1"
  note s1 = acquire_slot_Inr [OF slot]
  from acc slot have step: "process_packet opts env st p = Some (Next ?st')"
    by (simp add: process_packet_accepted)
  from s1(3) s1(2) fail have cs: "conv_subs ?st' = conv_subs st @ [?r]"
    by (simp add: start_ocr_conv_subs)
  from s1(2) fail have ce: "cerr ?st' = cerr st1 @ [OCR_failed (sub_counter st)]"
    using start_ocr_failed [of env st1 i "ImageInverter (img p)" p opts] by simp
  from s1(2) have sc: "sub_counter ?st' = sub_counter st + 1" by simp
  from reach step have rl:
    "read_loop opts env initial_state (ps1 @ p # ps2) = read_loop opts env ?st' ps2"
    by (simp add: read_loop_append)
  have em: "\<exists>out fs e.
                 main opts env (ps1 @ p # ps2) =
                   Some \<lparr>exit_status = Returned 0, srtout = Some out, final_state = fs\<rparr> \<and>
                 length out = length (conv_subs stf) \<and>
                 printf_u (sub_counter st) @ [CHR 0x0A] @ pts2srt (spu_start_pts p) @
                 '' --> '' @ pts2srt e @ [CHR 0x0A] @ ''(null)'' @ [CHR 0x0A, CHR 0x0A]
                 \<in> set out"
    if f: "read_loop opts env ?st' ps2 = Some (Next stf)"
      and l: "end_pts (last (std_sort sort_fct (conv_subs stf))) \<noteq> UINT_MAX"
    for stf
  proof -
    let ?subs = "std_sort sort_fct (conv_subs stf)"
    let ?w = "write_loop (dumb opts) ?subs 0 []"
    from l have nf: "fst ?w = None" by (simp add: write_loop_fault)
    from f rl have f': "read_loop opts env initial_state (ps1 @ p # ps2) = Some (Next stf)"
      by simp
    note m = main_writes [OF op f' nf]
    from read_loop_conv_subs [OF f] cs have "?r \<in> set (conv_subs stf)" by auto
    then have "?r \<in> set ?subs" by (simp add: set_std_sort)
    then obtain k where k: "k < length ?subs" "?subs ! k = ?r"
      by (auto simp: in_set_conv_nth)
    from write_loop_complete [OF nf k(1)] k(2) obtain e where
      o: "snd (snd ?w) ! k = srt_record (?r\<lparr>end_pts := e\<rparr>)"
      and n: "length (snd (snd ?w)) = length ?subs"
      by auto
    with k(1) have "srt_record (?r\<lparr>end_pts := e\<rparr>) \<in> set (snd (snd ?w))"
      by (metis nth_mem)
    then have "printf_u (sub_counter st) @ [CHR 0x0A] @ pts2srt (spu_start_pts p) @
                 '' --> '' @ pts2srt e @ [CHR 0x0A] @ ''(null)'' @ [CHR 0x0A, CHR 0x0A]
                 \<in> set (snd (snd ?w))"
      by (simp add: srt_record_null)
    moreover from n have "length (snd (snd ?w)) = length (conv_subs stf)"
      by (simp add: length_std_sort)
    ultimately show ?thesis using m by blast
  qed
  from step cs ce sc rl em show ?thesis by blast
qed

text \<open>
  Claim C5 as stated fails: the result of a frame whose recognition failed is not always
  written. With a pool of two and surroundings in which no second engine can be created,
  the recognition of the first frame fails (it is logged and its result appended), the
  second frame needs a second engine, and \<open>main\<close> returns \<open>- 1\<close> with nothing written.
\<close>

theorem failed_frame_never_written:
  "map_option (\<lambda>r. (exit_status r, srtout r, conv_subs (final_state r), cerr (final_state r)))
     (main sample_options2 one_engine_environment [blank_frame 9000, sample_frame 18000])
   = Some (Returned (- 1), Some [],
           [\<lparr>counter = 1, start_pts = 9000, end_pts = UINT_MAX, sub_text = None\<rparr>],
           [OCR_failed 1])"
  by code_simp

theorem recognition_failure_is_not_fatal_witness:
  "fopen_ok sample_environment \<and>
   read_loop sample_options sample_environment initial_state [sample_frame 9000]
     = Some (Next sample_state) \<and>
   0 \<le>s timestamp (blank_frame 18000) \<and>
   spu_start_pts (blank_frame 18000) \<noteq> last_start_pts sample_state \<and>
   \<not> (width (blank_frame 18000) < min_width sample_options \<or>
       height (blank_frame 18000) < min_height sample_options) \<and>
   acquire_slot sample_options sample_environment
     (preprocess sample_options (blank_frame 18000)
        (sample_state\<lparr>last_start_pts := spu_start_pts (blank_frame 18000)\<rparr>))
     = Some (Inr (0, sample_state\<lparr>last_start_pts := 18000\<rparr>)) \<and>
   TesseractRect sample_environment
     (tess_base_api (threads (sample_state\<lparr>last_start_pts := 18000\<rparr>) ! 0))
     (ImageInverter (img (blank_frame 18000))) (stride (blank_frame 18000))
     (width (blank_frame 18000)) (height (blank_frame 18000)) = None \<and>
   (\<exists>st'. process_packet sample_options sample_environment sample_state (blank_frame 18000)
            = Some (Next st') \<and>
      conv_subs st' = [sample_result 1 9000 UINT_MAX,
        \<lparr>counter = 2, start_pts = 18000, end_pts = UINT_MAX, sub_text = None\<rparr>] \<and>
      cerr st' = [OCR_failed 2] \<and> sub_counter st' = 3 \<and>
      (\<exists>stf. read_loop sample_options sample_environment st'
                [(sample_frame 27000)\<lparr>spu_end_pts := 36000\<rparr>] = Some (Next stf) \<and>
         end_pts (last (std_sort sort_fct (conv_subs stf))) \<noteq> UINT_MAX)) \<and>
   (\<exists>fs. main sample_options sample_environment
        [sample_frame 9000, blank_frame 18000, (sample_frame 27000)\<lparr>spu_end_pts := 36000\<rparr>]
      = Some \<lparr>exit_status = Returned 0,
          srtout = Some [srt_record (sample_result 1 9000 18000),
              srt_record \<lparr>counter = 2, start_pts = 18000, end_pts = 27000, sub_text = None\<rparr>,
              srt_record (sample_result 3 27000 36000)],
          final_state = fs\<rparr>) \<and>
   (\<exists>e. printf_u 2 @ [CHR 0x0A] @ pts2srt 18000 @ '' --> '' @ pts2srt e @ [CHR 0x0A] @
          ''(null)'' @ [CHR 0x0A, CHR 0x0A]
      \<in> set [srt_record (sample_result 1 9000 18000),
              srt_record \<lparr>counter = 2, start_pts = 18000, end_pts = 27000, sub_text = None\<rparr>,
              srt_record (sample_result 3 27000 36000)])"
proof -
  let ?p = "blank_frame 18000" and ?q = "(sample_frame 27000)\<lparr>spu_end_pts := 36000\<rparr>"
  let ?st1 = "sample_state\<lparr>last_start_pts := 18000\<rparr>"
  let ?X = "\<lparr>threads = [\<lparr>ocr_t = None, ocr_done = True, tess_base_api = 0\<rparr>],
       last_start_pts = 18000, sub_counter = 3,
       conv_subs = [sample_result 1 9000 UINT_MAX,
          \<lparr>counter = 2, start_pts = 18000, end_pts = UINT_MAX, sub_text = None\<rparr>],
       cerr = [OCR_failed 2], cout = [], dumped = []\<rparr>"
  let ?F = "\<lparr>threads = [\<lparr>ocr_t = None, ocr_done = True, tess_base_api = 0\<rparr>],
       last_start_pts = 27000, sub_counter = 4,
       conv_subs = [sample_result 1 9000 UINT_MAX,
          \<lparr>counter = 2, start_pts = 18000, end_pts = UINT_MAX, sub_text = None\<rparr>,
          sample_result 3 27000 36000],
       cerr = [OCR_failed 2], cout = [], dumped = []\<rparr>"
  let ?out = "[srt_record (sample_result 1 9000 18000),
              srt_record \<lparr>counter = 2, start_pts = 18000, end_pts = 27000, sub_text = None\<rparr>,
              srt_record (sample_result 3 27000 36000)]"
  let ?fs = "\<lparr>threads = [\<lparr>ocr_t = None, ocr_done = True, tess_base_api = 0\<rparr>],
      last_start_pts = 27000, sub_counter = 4,
      conv_subs = [\<lparr>counter = 1, start_pts = 9000, end_pts = 18000, sub_text = None\<rparr>,
                   \<lparr>counter = 2, start_pts = 18000, end_pts = 27000, sub_text = None\<rparr>,
                   \<lparr>counter = 3, start_pts = 27000, end_pts = 36000, sub_text = None\<rparr>],
      cerr = [OCR_failed 2], cout = [], dumped = []\<rparr>"
  have o: "fopen_ok sample_environment" by (simp add: sample_environment_def)
  have a: "read_loop sample_options sample_environment initial_state [sample_frame 9000]
     = Some (Next sample_state)"
    by code_simp
  have b: "0 \<le>s timestamp ?p"
    by (simp add: blank_frame_def sample_frame_def word_sle_eq)
  have c: "spu_start_pts ?p \<noteq> last_start_pts sample_state"
    by (simp add: blank_frame_def sample_frame_def sample_state_def)
  have d: "\<not> (width ?p < min_width sample_options \<or> height ?p < min_height sample_options)"
    by (simp add: blank_frame_def sample_frame_def sample_options_def)
  have e: "acquire_slot sample_options sample_environment
     (preprocess sample_options ?p (sample_state\<lparr>last_start_pts := spu_start_pts ?p\<rparr>))
     = Some (Inr (0, ?st1))"
    by code_simp
  have f: "TesseractRect sample_environment (tess_base_api (threads ?st1 ! 0))
     (ImageInverter (img ?p)) (stride ?p) (width ?p) (height ?p) = None"
    by code_simp
  have x: "process_packet sample_options sample_environment sample_state ?p = Some (Next ?X)"
    by code_simp
  have r: "read_loop sample_options sample_environment ?X [?q] = Some (Next ?F)"
    by code_simp
  have l: "end_pts (last (std_sort sort_fct (conv_subs ?F))) \<noteq> UINT_MAX"
    by code_simp
  have g: "main sample_options sample_environment ([sample_frame 9000] @ ?p # [?q])
     = Some \<lparr>exit_status = Returned 0, srtout = Some ?out, final_state = ?fs\<rparr>"
    by code_simp
  have h: "conv_subs sample_state = [sample_result 1 9000 UINT_MAX]"
    "sub_counter sample_state = 2" "cerr ?st1 = []"
    "spu_start_pts ?p = 18000" "spu_end_pts ?p = UINT_MAX"
    by (simp_all add: sample_state_def blank_frame_def sample_frame_def)
  from recognition_failure_is_not_fatal [OF o a b c d e f, of "[?q]"] x
  have t: "conv_subs ?X = conv_subs sample_state @
       [\<lparr>counter = sub_counter sample_state, start_pts = spu_start_pts ?p,
         end_pts = spu_end_pts ?p, sub_text = None\<rparr>]"
    "cerr ?X = cerr ?st1 @ [OCR_failed (sub_counter sample_state)]"
    "sub_counter ?X = sub_counter sample_state + 1"
    "\<forall>stf. read_loop sample_options sample_environment ?X [?q] = Some (Next stf) \<and>
           end_pts (last (std_sort sort_fct (conv_subs stf))) \<noteq> UINT_MAX \<longrightarrow>
       (\<exists>out fs e.
          main sample_options sample_environment ([sample_frame 9000] @ ?p # [?q]) =
            Some \<lparr>exit_status = Returned 0, srtout = Some out, final_state = fs\<rparr> \<and>
          length out = length (conv_subs stf) \<and>
          printf_u (sub_counter sample_state) @ [CHR 0x0A] @ pts2srt (spu_start_pts ?p) @
          '' --> '' @ pts2srt e @ [CHR 0x0A] @ ''(null)'' @ [CHR 0x0A, CHR 0x0A] \<in> set out)"
    by auto
  from t(4) [rule_format, OF conjI [OF r l]] obtain out fs e where
    m: "main sample_options sample_environment ([sample_frame 9000] @ ?p # [?q]) =
            Some \<lparr>exit_status = Returned 0, srtout = Some out, final_state = fs\<rparr>"
    and mem: "printf_u (sub_counter sample_state) @ [CHR 0x0A] @ pts2srt (spu_start_pts ?p) @
          '' --> '' @ pts2srt e @ [CHR 0x0A] @ ''(null)'' @ [CHR 0x0A, CHR 0x0A] \<in> set out"
    by (elim exE conjE)
  from m have "out = ?out" unfolding g by simp
  with mem have
    em: "\<exists>e. printf_u (sub_counter sample_state) @ [CHR 0x0A] @ pts2srt (spu_start_pts ?p) @
          '' --> '' @ pts2srt e @ [CHR 0x0A] @ ''(null)'' @ [CHR 0x0A, CHR 0x0A] \<in> set ?out"
    by (intro exI [of _ e]) simp
  have p1: "\<exists>st'. process_packet sample_options sample_environment sample_state ?p
            = Some (Next st') \<and>
      conv_subs st' = [sample_result 1 9000 UINT_MAX,
        \<lparr>counter = 2, start_pts = 18000, end_pts = UINT_MAX, sub_text = None\<rparr>] \<and>
      cerr st' = [OCR_failed 2] \<and> sub_counter st' = 3 \<and>
      (\<exists>stf. read_loop sample_options sample_environment st' [?q] = Some (Next stf) \<and>
         end_pts (last (std_sort sort_fct (conv_subs stf))) \<noteq> UINT_MAX)"
  proof (rule exI [of _ ?X], intro conjI)
    show "process_packet sample_options sample_environment sample_state ?p = Some (Next ?X)"
      by (rule x)
    show "\<exists>stf. read_loop sample_options sample_environment ?X [?q] = Some (Next stf) \<and>
         end_pts (last (std_sort sort_fct (conv_subs stf))) \<noteq> UINT_MAX"
      using r l by (intro exI [of _ ?F]) (rule conjI)
  qed simp_all
  have p2: "\<exists>fs. main sample_options sample_environment [sample_frame 9000, ?p, ?q]
      = Some \<lparr>exit_status = Returned 0, srtout = Some ?out, final_state = fs\<rparr>"
    using g by auto
  from em have p3: "\<exists>e. printf_u 2 @ [CHR 0x0A] @ pts2srt 18000 @ '' --> '' @ pts2srt e @
          [CHR 0x0A] @ ''(null)'' @ [CHR 0x0A, CHR 0x0A] \<in> set ?out"
    unfolding h .
  from o a b c d e f p1 p2 p3 show ?thesis by (intro conjI)
qed

subsection \<open>The capacity of the pool\<close>

text \<open>
  Claim C8. In every configuration that a schedule of dispatches and thread ends reaches
  from the initial state, the threads that were started and have not finished are at
  most \<open>pool_size\<close>, and so are the slots; no two of these threads share a slot, and the
  flag \<open>done\<close> of none of their slots is set. The slot for a frame is chosen in one of
  three ways: a new slot with a new engine, while the pool is smaller than \<open>pool_size\<close>
  and only then; the only slot, when \<open>pool_size\<close> is 1; otherwise the first slot whose
  flag \<open>done\<close> is set, whose thread is joined. With \<open>pool_size\<close> 1 no thread is ever
  started: no job exists, every thread handle is null, and a dispatch has appended the
  result of its recognition when it ends.
\<close>

theorem pool_capacity:
  assumes "pool_events opts env (initial_state, []) es = Some (st, live)"
  shows "length live \<le> unat (pool_size opts env) \<and>
         length (threads st) \<le> unat (pool_size opts env) \<and>
         distinct (map job_slot live) \<and>
         list_all (\<lambda>j. job_slot j < length (threads st) \<and>
                        \<not> ocr_done (threads st ! job_slot j)) live \<and>
         (\<forall>i st1. acquire_slot opts env st = Some (Inr (i, st1)) \<longrightarrow>
            (length (threads st) < unat (pool_size opts env) \<and> i = length (threads st) \<and>
             (\<exists>api. init_tesseract env (length (threads st)) = Some api \<and>
                threads st1 = threads st @
                  [\<lparr>ocr_t = None, ocr_done = False, tess_base_api = api\<rparr>]))
          \<or> (\<not> length (threads st) < unat (pool_size opts env) \<and> pool_size opts env = 1 \<and>
             i = 0 \<and> st1 = st)
          \<or> (\<not> length (threads st) < unat (pool_size opts env) \<and> pool_size opts env \<noteq> 1 \<and>
             scan_done (threads st) 0 = Some i \<and> i < length (threads st) \<and>
             ocr_done (threads st ! i) \<and>
             threads st1 = (threads st)[i := (threads st ! i)\<lparr>ocr_t := None\<rparr>])) \<and>
         (pool_size opts env = 1 \<longrightarrow>
            live = [] \<and> list_all (\<lambda>x. ocr_t x = None) (threads st) \<and>
            (\<forall>p st' live'. dispatch opts env p (st, live) = Some (st', live') \<longrightarrow>
               live' = [] \<and> length (conv_subs st') = length (conv_subs st) + 1))"
proof -
  from pool_inv_events [OF pool_inv_initial assms] have inv: "pool_inv opts env (st, live)" .
  from pool_inv_live [OF inv] inv have "length live \<le> unat (pool_size opts env)"
    by (simp add: pool_inv_def)
  moreover from inv have "length (threads st) \<le> unat (pool_size opts env)"
    "distinct (map job_slot live)"
    "list_all (\<lambda>j. job_slot j < length (threads st) \<and>
                        \<not> ocr_done (threads st ! job_slot j)) live"
    by (simp_all add: pool_inv_def)
  moreover have "pool_size opts env = 1 \<longrightarrow>
            live = [] \<and> list_all (\<lambda>x. ocr_t x = None) (threads st) \<and>
            (\<forall>p st' live'. dispatch opts env p (st, live) = Some (st', live') \<longrightarrow>
               live' = [] \<and> length (conv_subs st') = length (conv_subs st) + 1)"
  proof (intro impI conjI allI)
    assume one: "pool_size opts env = 1"
    with inv show l: "live = []" and "list_all (\<lambda>x. ocr_t x = None) (threads st)"
      by (simp_all add: pool_inv_def)
    fix p st' live' assume d: "dispatch opts env p (st, live) = Some (st', live')"
    from dispatch_inline [OF one d] l show "live' = []"
      and "length (conv_subs st') = length (conv_subs st) + 1" by simp_all
  qed
  ultimately show ?thesis using acquire_slot_cases [of opts env st] by blast
qed

theorem pool_capacity_witness:
  "(\<exists>st live.
      pool_events sample_options2 sample_environment (initial_state, [])
        [Dispatch (sample_frame 9000), Dispatch (sample_frame 18000), Finish 0,
         Dispatch (sample_frame 27000)] = Some (st, live) \<and>
      map job_slot live = [1, 0] \<and> map ocr_done (threads st) = [False, False] \<and>
      length live \<le> unat (pool_size sample_options2 sample_environment) \<and>
      length (threads st) \<le> unat (pool_size sample_options2 sample_environment)) \<and>
   unat (pool_size sample_options2 sample_environment) = 2 \<and>
   pool_events sample_options2 sample_environment (initial_state, [])
     [Dispatch (sample_frame 9000), Dispatch (sample_frame 18000),
      Dispatch (sample_frame 27000)] = None"
proof -
  let ?st = "\<lparr>threads = [\<lparr>ocr_t = Some 3, ocr_done = False, tess_base_api = 0\<rparr>,
                         \<lparr>ocr_t = Some 2, ocr_done = False, tess_base_api = 1\<rparr>],
              last_start_pts = 0, sub_counter = 4,
              conv_subs = [sample_result 1 9000 UINT_MAX],
              cerr = [], cout = [], dumped = []\<rparr>"
  let ?live = "[Job 1 2 (sample_frame 18000), Job 0 3 (sample_frame 27000)]"
  have e: "pool_events sample_options2 sample_environment (initial_state, [])
        [Dispatch (sample_frame 9000), Dispatch (sample_frame 18000), Finish 0,
         Dispatch (sample_frame 27000)] = Some (?st, ?live)"
    by code_simp
  have n: "unat (pool_size sample_options2 sample_environment) = 2"
    by code_simp
  have w: "pool_events sample_options2 sample_environment (initial_state, [])
     [Dispatch (sample_frame 9000), Dispatch (sample_frame 18000)]
     = Some (\<lparr>threads = [\<lparr>ocr_t = Some 1, ocr_done = False, tess_base_api = 0\<rparr>,
                         \<lparr>ocr_t = Some 2, ocr_done = False, tess_base_api = 1\<rparr>],
              last_start_pts = 0, sub_counter = 3, conv_subs = [],
              cerr = [], cout = [], dumped = []\<rparr>,
             [Job 0 1 (sample_frame 9000), Job 1 2 (sample_frame 18000)])"
    by code_simp
  have "pool_events sample_options2 sample_environment
     (\<lparr>threads = [\<lparr>ocr_t = Some 1, ocr_done = False, tess_base_api = 0\<rparr>,
                         \<lparr>ocr_t = Some 2, ocr_done = False, tess_base_api = 1\<rparr>],
              last_start_pts = 0, sub_counter = 3, conv_subs = [],
              cerr = [], cout = [], dumped = []\<rparr>,
             [Job 0 1 (sample_frame 9000), Job 1 2 (sample_frame 18000)])
     [Dispatch (sample_frame 27000)] = None"
    by (simp add: dispatch_def acquire_slot_def poll_done_eq pool_size_def sample_options2_def
        sample_options_def word_sle_eq)
  with w have b: "pool_events sample_options2 sample_environment (initial_state, [])
     [Dispatch (sample_frame 9000), Dispatch (sample_frame 18000),
      Dispatch (sample_frame 27000)] = None"
    using pool_events_append [of sample_options2 sample_environment "(initial_state, [])"
        "[Dispatch (sample_frame 9000), Dispatch (sample_frame 18000)]"
        "[Dispatch (sample_frame 27000)]"]
    by simp
  from pool_capacity [OF e] have
    "length ?live \<le> unat (pool_size sample_options2 sample_environment)"
    "length (threads ?st) \<le> unat (pool_size sample_options2 sample_environment)"
    by blast+
  with e n b show ?thesis by simp
qed

end
